theory Spec2Isabelle
  imports Complex_Main "HOL-Library.Char_ord" "HOL-Library.List_Lexorder"
begin

section \<open>JavaScript values\<close>

text \<open>
  The itinerary page keeps plain JavaScript objects in an array. A number is an IEEE
  double; the model keeps the exact decimal value of a finite number (rounding to
  binary64 is not modelled) and the three special values. A string is a sequence of
  code units; the model uses the 8-bit code units of Isabelle's \<open>char\<close>, read as the
  Latin-1 range of UTF-16. Arrays and nested objects as field values do not occur in
  the code modelled here and are left out of \<open>jsval\<close>.
\<close>

datatype jsnum = NaN | PosInfinity | NegInfinity | Finite rat

datatype jsval = JNull | JBool bool | JNum jsnum | JStr string

datatype error = TypeError | SyntaxError | SecurityError

text \<open>
  An object is a finite map from property names to values; reading a missing property
  gives \<open>undefined\<close>, which is \<open>None\<close> here. The spread \<open>{...a, ...b}\<close> is map
  addition \<open>a ++ b\<close>: the right operand wins on common keys.
\<close>

type_synonym itinerario = "string \<rightharpoonup> jsval"

section \<open>String operations\<close>

text \<open>\<open>WhiteSpace\<close> and \<open>LineTerminator\<close> code points below 256: TAB, LF, VT, FF, CR,
  SP and NBSP. \<open>String.prototype.trim\<close> strips them at both ends.\<close>

definition isWhiteSpace :: "char \<Rightarrow> bool" where
  "isWhiteSpace c = (of_char c \<in> {9, 10, 11, 12, 13, 32, 160 :: nat})"

definition trimStart :: "string \<Rightarrow> string" where
  "trimStart s = dropWhile isWhiteSpace s"

definition trim :: "string \<Rightarrow> string" where
  "trim s = rev (dropWhile isWhiteSpace (rev (dropWhile isWhiteSpace s)))"

text \<open>\<open>String.prototype.toLowerCase\<close> on the Latin-1 range: A to Z and the
  accented capitals U+00C0 to U+00DE (the multiplication sign U+00D7 apart) move up by
  32; every other code unit stays.\<close>

definition toLowerChar :: "char \<Rightarrow> char" where
  "toLowerChar c =
     (let n = of_char c :: nat
      in if (65 \<le> n \<and> n \<le> 90) \<or> (192 \<le> n \<and> n \<le> 222 \<and> n \<noteq> 215)
         then char_of (n + 32) else c)"

definition toLowerCase :: "string \<Rightarrow> string" where
  "toLowerCase s = map toLowerChar s"

fun startsWith :: "string \<Rightarrow> string \<Rightarrow> bool" where
  "startsWith s [] = True"
| "startsWith [] (q # qs) = False"
| "startsWith (c # cs) (q # qs) = (c = q \<and> startsWith cs qs)"

text \<open>\<open>s.includes(q)\<close>: \<open>q\<close> occurs in \<open>s\<close> as a contiguous run of code units.\<close>

fun includes_str :: "string \<Rightarrow> string \<Rightarrow> bool" where
  "includes_str [] q = (q = [])"
| "includes_str (c # cs) q = (startsWith (c # cs) q \<or> includes_str cs q)"

definition isDigit :: "char \<Rightarrow> bool" where
  "isDigit c = (48 \<le> (of_char c :: nat) \<and> (of_char c :: nat) \<le> 57)"

definition digitVal :: "char \<Rightarrow> nat" where
  "digitVal c = of_char c - 48"

definition digitsVal :: "string \<Rightarrow> nat" where
  "digitsVal s = foldl (\<lambda>a c. 10 * a + digitVal c) 0 s"

section \<open>Numbers from text\<close>

text \<open>
  \<open>parseFloat\<close> skips leading white space and reads the longest prefix that is a
  \<open>StrDecimalLiteral\<close>: an optional sign, then \<open>Infinity\<close> or decimal digits with an
  optional fraction and an optional exponent. No such prefix gives \<open>NaN\<close>. An
  exponent counts only when at least one digit follows it.
\<close>

definition exponentPart :: "string \<Rightarrow> int" where
  "exponentPart r =
     (case r of
        [] \<Rightarrow> 0
      | c # r' \<Rightarrow>
          if c = CHR ''e'' \<or> c = CHR ''E'' then
            (case r' of
               [] \<Rightarrow> 0
             | s # r'' \<Rightarrow>
                 if s = CHR ''-'' then - int (digitsVal (takeWhile isDigit r''))
                 else if s = CHR ''+'' then int (digitsVal (takeWhile isDigit r''))
                 else int (digitsVal (takeWhile isDigit r')))
          else 0)"

definition scale10 :: "rat \<Rightarrow> int \<Rightarrow> rat" where
  "scale10 m e = (if 0 \<le> e then m * 10 ^ nat e else m / 10 ^ nat (- e))"

definition parseFloat :: "string \<Rightarrow> jsnum" where
  "parseFloat s =
     (let t = trimStart s;
          neg = (t \<noteq> [] \<and> hd t = CHR ''-'');
          u = (if t \<noteq> [] \<and> (hd t = CHR ''-'' \<or> hd t = CHR ''+'') then tl t else t)
      in if startsWith u ''Infinity'' then (if neg then NegInfinity else PosInfinity)
         else
           let ip = takeWhile isDigit u;
               r1 = dropWhile isDigit u;
               dot = (r1 \<noteq> [] \<and> hd r1 = CHR ''.'');
               fp = (if dot then takeWhile isDigit (tl r1) else []);
               r2 = (if dot then dropWhile isDigit (tl r1) else r1)
           in if ip = [] \<and> fp = [] then NaN
              else
                let m = of_nat (digitsVal (ip @ fp)) / 10 ^ length fp;
                    v = scale10 m (exponentPart r2)
                in Finite (if neg then - v else v))"

text \<open>\<open>ToBoolean\<close> of a number: \<open>NaN\<close> and zero are falsy. \<open>a || b\<close> is \<open>a\<close> when
  \<open>a\<close> is truthy and \<open>b\<close> otherwise.\<close>

definition truthy_num :: "jsnum \<Rightarrow> bool" where
  "truthy_num n = (case n of NaN \<Rightarrow> False | Finite q \<Rightarrow> q \<noteq> 0 | _ \<Rightarrow> True)"

definition or_num :: "jsnum \<Rightarrow> jsnum \<Rightarrow> jsnum" where
  "or_num a b = (if truthy_num a then a else b)"

section \<open>Module state of the itinerary page\<close>

record state =
  itinerarios :: "itinerario list"
  filtroActual :: string
  busqueda :: string
  editandoId :: "string option"
  eliminandoId :: "string option"

text \<open>\<open>Array.prototype.findIndex\<close>: the first index whose element satisfies the
  predicate; the source's \<open>-1\<close> is \<open>None\<close>.\<close>

fun findIndex :: "('a \<Rightarrow> bool) \<Rightarrow> 'a list \<Rightarrow> nat option" where
  "findIndex P [] = None"
| "findIndex P (x # xs) = (if P x then Some 0 else map_option Suc (findIndex P xs))"

text \<open>\<open>it.id === id\<close> with \<open>id\<close> a string: strict equality holds only for a string
  property with the same code units.\<close>

definition has_id :: "string \<Rightarrow> itinerario \<Rightarrow> bool" where
  "has_id iid it = (it ''id'' = Some (JStr iid))"

text \<open>\<open>Number.prototype.toString(16)\<close> of an integer: lower-case hexadecimal digits,
  most significant first, with a minus sign for a negative number.\<close>

definition hexDigit :: "nat \<Rightarrow> char" where
  "hexDigit d = (if d < 10 then char_of (48 + d) else char_of (87 + d))"

fun hexNat :: "nat \<Rightarrow> string" where
  "hexNat n = (if n < 16 then [hexDigit n] else hexNat (n div 16) @ [hexDigit (n mod 16)])"

declare hexNat.simps [simp del]

definition toString16 :: "int \<Rightarrow> string" where
  "toString16 n = (if n < 0 then CHR ''-'' # hexNat (nat (- n)) else hexNat (nat n))"

text \<open>
  The store operations. The clock is read by the source where the model takes an
  argument: \<open>nowMs\<close> is \<open>Date.now()\<close>, in milliseconds since the epoch, and \<open>nowIso\<close>
  is \<open>new Date().toISOString()\<close>. \<open>guardarItinerarios\<close> writes the array to local
  storage and does not change the module state; the write is not part of the state
  modelled here.
\<close>

definition crearItinerario :: "int \<Rightarrow> string \<Rightarrow> itinerario \<Rightarrow> state \<Rightarrow> itinerario \<times> state" where
  "crearItinerario nowMs nowIso datos st =
     (let nuevo = [''id'' \<mapsto> JStr (''it_'' @ toString16 nowMs)] ++ datos
                    ++ [''creadoEn'' \<mapsto> JStr nowIso]
      in (nuevo, st\<lparr>itinerarios := nuevo # itinerarios st\<rparr>))"

definition editarItinerario :: "string \<Rightarrow> string \<Rightarrow> itinerario \<Rightarrow> state \<Rightarrow> bool \<times> state" where
  "editarItinerario nowIso iid datos st =
     (case findIndex (has_id iid) (itinerarios st) of
        None \<Rightarrow> (False, st)
      | Some index \<Rightarrow>
          (True, st\<lparr>itinerarios := (itinerarios st)
             [index := (itinerarios st ! index) ++ datos
                         ++ [''actualizadoEn'' \<mapsto> JStr nowIso]]\<rparr>))"

definition eliminarItinerario :: "string \<Rightarrow> state \<Rightarrow> state" where
  "eliminarItinerario iid st =
     st\<lparr>itinerarios := filter (\<lambda>it. \<not> has_id iid it) (itinerarios st)\<rparr>"

section \<open>Filter and search projection\<close>

text \<open>A record whose \<open>destino\<close> and \<open>nombre\<close> are strings, as every record built
  from the form is.\<close>

definition is_text :: "jsval option \<Rightarrow> bool" where
  "is_text v = (case v of Some (JStr s) \<Rightarrow> True | _ \<Rightarrow> False)"

definition textual :: "itinerario \<Rightarrow> bool" where
  "textual it = (is_text (it ''destino'') \<and> is_text (it ''nombre''))"

text \<open>\<open>v.toLowerCase()\<close> on a property value: only a string has the method; on
  \<open>undefined\<close>, \<open>null\<close>, a number or a boolean the call raises a TypeError.\<close>

definition toLowerCase_of :: "jsval option \<Rightarrow> error + string" where
  "toLowerCase_of v = (case v of Some (JStr s) \<Rightarrow> Inr (toLowerCase s) | _ \<Rightarrow> Inl TypeError)"

text \<open>The search predicate of \<open>getItinerariosFiltrados\<close>. \<open>||\<close> evaluates its right
  operand only when the left one is false.\<close>

definition coincideBusqueda :: "string \<Rightarrow> itinerario \<Rightarrow> error + bool" where
  "coincideBusqueda q it =
     (case toLowerCase_of (it ''destino'') of
        Inl e \<Rightarrow> Inl e
      | Inr d \<Rightarrow>
          if includes_str d q then Inr True
          else (case toLowerCase_of (it ''nombre'') of
                  Inl e \<Rightarrow> Inl e
                | Inr n \<Rightarrow> Inr (includes_str n q)))"

text \<open>\<open>Array.prototype.filter\<close> with a predicate that may raise: elements are visited
  in order and the first exception ends the call.\<close>

fun filterE :: "('a \<Rightarrow> error + bool) \<Rightarrow> 'a list \<Rightarrow> error + 'a list" where
  "filterE p [] = Inr []"
| "filterE p (x # xs) =
     (case p x of
        Inl e \<Rightarrow> Inl e
      | Inr b \<Rightarrow>
          (case filterE p xs of
             Inl e \<Rightarrow> Inl e
           | Inr ys \<Rightarrow> Inr (if b then x # ys else ys)))"

text \<open>\<open>getItinerariosFiltrados\<close> returns the projection (or the exception) together
  with the module state after the call.\<close>

definition getItinerariosFiltrados :: "state \<Rightarrow> (error + itinerario list) \<times> state" where
  "getItinerariosFiltrados st =
     (let lista = itinerarios st;
          lista = (if filtroActual st \<noteq> ''todos''
                   then filter (\<lambda>it. it ''estado'' = Some (JStr (filtroActual st))) lista
                   else lista)
      in if trim (busqueda st) \<noteq> []
         then (let q = toLowerCase (busqueda st) in (filterE (coincideBusqueda q) lista, st))
         else (Inr lista, st))"

section \<open>The itinerary form\<close>

text \<open>The part of the document the form code reads and writes: the values of the seven
  inputs and, for the four form groups, whether the class \<open>has-error\<close> is set.\<close>

record dom =
  input_nombre :: string
  input_destino :: string
  input_fecha_inicio :: string
  input_fecha_fin :: string
  input_estado :: string
  input_budget :: string
  input_notas :: string
  fg_nombre :: bool
  fg_destino :: bool
  fg_fecha_inicio :: bool
  fg_fecha_fin :: bool

definition limpiarErroresForm :: "dom \<Rightarrow> dom" where
  "limpiarErroresForm d =
     d\<lparr>fg_nombre := False, fg_destino := False, fg_fecha_inicio := False, fg_fecha_fin := False\<rparr>"

text \<open>\<open>validarForm\<close>: four checks in sequence, each setting its own flag. An empty
  string is falsy; \<open><\<close> on two strings compares code units lexicographically.\<close>

definition validarForm :: "dom \<Rightarrow> bool \<times> dom" where
  "validarForm d =
     (let d0 = limpiarErroresForm d;
          nombre = trim (input_nombre d0);
          destino = trim (input_destino d0);
          fechaInicio = input_fecha_inicio d0;
          fechaFin = input_fecha_fin d0;
          (valido, d1) = (if nombre = [] then (False, d0\<lparr>fg_nombre := True\<rparr>) else (True, d0));
          (valido, d2) = (if destino = [] then (False, d1\<lparr>fg_destino := True\<rparr>) else (valido, d1));
          (valido, d3) = (if fechaInicio = [] then (False, d2\<lparr>fg_fecha_inicio := True\<rparr>)
                          else (valido, d2));
          (valido, d4) = (if fechaFin = [] \<or> (fechaInicio \<noteq> [] \<and> fechaFin < fechaInicio)
                          then (False, d3\<lparr>fg_fecha_fin := True\<rparr>) else (valido, d3))
      in (valido, d4))"

text \<open>The object \<open>datos\<close> that \<open>handleGuardar\<close> builds from the inputs.\<close>

definition datosForm :: "dom \<Rightarrow> itinerario" where
  "datosForm d =
     [''nombre'' \<mapsto> JStr (trim (input_nombre d)),
      ''destino'' \<mapsto> JStr (trim (input_destino d)),
      ''fechaInicio'' \<mapsto> JStr (input_fecha_inicio d),
      ''fechaFin'' \<mapsto> JStr (input_fecha_fin d),
      ''estado'' \<mapsto> JStr (input_estado d),
      ''budget'' \<mapsto> JNum (or_num (parseFloat (input_budget d)) (Finite 1500)),
      ''notas'' \<mapsto> JStr (trim (input_notas d))]"

text \<open>\<open>if (state.editandoId)\<close>: \<open>null\<close> and the empty string are falsy.\<close>

definition truthy_id :: "string option \<Rightarrow> bool" where
  "truthy_id v = (case v of None \<Rightarrow> False | Some s \<Rightarrow> s \<noteq> [])"

text \<open>\<open>handleGuardar\<close>: nothing is stored unless the form validates. Toasts, the modal
  and rendering do not touch the collection and are left out.\<close>

definition handleGuardar :: "int \<Rightarrow> string \<Rightarrow> dom \<times> state \<Rightarrow> dom \<times> state" where
  "handleGuardar nowMs nowIso ds =
     (let (d, st) = ds;
          (valido, d') = validarForm d
      in if \<not> valido then (d', st)
         else
           let datos = datosForm d'
           in if truthy_id (editandoId st)
              then (d', snd (editarItinerario nowIso (the (editandoId st)) datos st))
              else (d', snd (crearItinerario nowMs nowIso datos st)))"

text \<open>The handlers that set and use the module's selection fields. \<open>Array.prototype.find\<close>
  returning \<open>undefined\<close> makes the opening handlers return at once. They also fill or
  clear the inputs of the form; a save below carries the content of the form at the
  click, so the inputs between two actions are not part of the state.\<close>

definition abrirFormNuevo :: "state \<Rightarrow> state" where
  "abrirFormNuevo st = st\<lparr>editandoId := None\<rparr>"

definition abrirFormEditar :: "string \<Rightarrow> state \<Rightarrow> state" where
  "abrirFormEditar iid st =
     (if \<exists>it \<in> set (itinerarios st). has_id iid it then st\<lparr>editandoId := Some iid\<rparr> else st)"

definition abrirConfirmEliminar :: "string \<Rightarrow> state \<Rightarrow> state" where
  "abrirConfirmEliminar iid st =
     (if \<exists>it \<in> set (itinerarios st). has_id iid it then st\<lparr>eliminandoId := Some iid\<rparr> else st)"

definition handleEliminar :: "state \<Rightarrow> state" where
  "handleEliminar st =
     (if \<not> truthy_id (eliminandoId st) then st
      else (eliminarItinerario (the (eliminandoId st)) st)\<lparr>eliminandoId := None\<rparr>)"

text \<open>The user's actions on the page: a click on a filter button, typing in the search
  box, and the buttons of the form and of the confirmation dialogue. A save carries the
  two clock readings and the content of the form at the moment of the click.\<close>

datatype event =
    Filtrar string
  | Buscar string
  | AbrirFormNuevo
  | AbrirFormEditar string
  | Guardar int string dom
  | AbrirConfirmEliminar string
  | Eliminar

fun step :: "state \<Rightarrow> event \<Rightarrow> state" where
  "step st (Filtrar f) = st\<lparr>filtroActual := f\<rparr>"
| "step st (Buscar v) = st\<lparr>busqueda := v\<rparr>"
| "step st AbrirFormNuevo = abrirFormNuevo st"
| "step st (AbrirFormEditar iid) = abrirFormEditar iid st"
| "step st (Guardar nowMs nowIso d) = snd (handleGuardar nowMs nowIso (d, st))"
| "step st (AbrirConfirmEliminar iid) = abrirConfirmEliminar iid st"
| "step st Eliminar = handleEliminar st"

definition estadoInicial :: state where
  "estadoInicial = \<lparr>itinerarios = [], filtroActual = ''todos'', busqueda = '''',
     editandoId = None, eliminandoId = None\<rparr>"

definition ejecutar :: "event list \<Rightarrow> state" where
  "ejecutar evs = foldl step estadoInicial evs"

section \<open>Properties of the stored records\<close>

text \<open>The dates of a record are in order when both are strings and the end date is
  not before the start date in the order that \<open>validarForm\<close> uses.\<close>

definition fechas_ok :: "itinerario \<Rightarrow> bool" where
  "fechas_ok it =
     (case (it ''fechaInicio'', it ''fechaFin'') of
        (Some (JStr s), Some (JStr e)) \<Rightarrow> s \<le> e
      | _ \<Rightarrow> False)"

text \<open>The \<open>id\<close> properties of the collection, in order, and the millisecond clock
  readings of the saves of a run, in order.\<close>

definition ids :: "state \<Rightarrow> jsval option list" where
  "ids st = map (\<lambda>it. it ''id'') (itinerarios st)"

fun relojes :: "event list \<Rightarrow> int list" where
  "relojes [] = []"
| "relojes (Guardar nowMs nowIso d # evs) = nowMs # relojes evs"
| "relojes (ev # evs) = relojes evs"

section \<open>Dates and the trip length\<close>

text \<open>
  \<open>new Date(s)\<close> on a date-only ISO string \<open>YYYY-MM-DD\<close> is midnight UTC of that
  day. The day number follows ECMAScript's \<open>MakeDay\<close>: the days from the epoch to the
  start of the year, the days of the months before, and the day of the month. The
  value of a date input is such a string or the empty string; every other string,
  also one with a month or a day out of range, is an invalid date here, which is
  \<open>None\<close> (the source's \<open>NaN\<close> time value).
\<close>

definition InLeapYear :: "int \<Rightarrow> bool" where
  "InLeapYear y = (y mod 4 = 0 \<and> (y mod 100 \<noteq> 0 \<or> y mod 400 = 0))"

definition DayFromYear :: "int \<Rightarrow> int" where
  "DayFromYear y =
     365 * (y - 1970) + (y - 1969) div 4 - (y - 1901) div 100 + (y - 1601) div 400"

definition DaysInMonth :: "int \<Rightarrow> nat \<Rightarrow> nat" where
  "DaysInMonth y m =
     (if m = 2 then (if InLeapYear y then 29 else 28)
      else if m = 4 \<or> m = 6 \<or> m = 9 \<or> m = 11 then 30 else 31)"

definition MakeDay :: "int \<Rightarrow> nat \<Rightarrow> nat \<Rightarrow> int" where
  "MakeDay y m d = DayFromYear y + int (\<Sum>k \<leftarrow> [1..<m]. DaysInMonth y k) + int d - 1"

definition msPerDay :: int where
  "msPerDay = 1000 * 60 * 60 * 24"

definition Date_parse :: "string \<Rightarrow> int option" where
  "Date_parse s =
     (if length s = 10 \<and> s ! 4 = CHR ''-'' \<and> s ! 7 = CHR ''-''
         \<and> list_all isDigit (take 4 s) \<and> list_all isDigit (take 2 (drop 5 s))
         \<and> list_all isDigit (drop 8 s)
      then
        let y = int (digitsVal (take 4 s));
            m = digitsVal (take 2 (drop 5 s));
            d = digitsVal (drop 8 s)
        in if 1 \<le> m \<and> m \<le> 12 \<and> 1 \<le> d \<and> d \<le> DaysInMonth y m
           then Some (MakeDay y m d * msPerDay) else None
      else None)"

text \<open>\<open>calcularDias\<close>. Subtracting two dates subtracts their time values; with an
  invalid date the difference is \<open>NaN\<close>, and \<open>Math.max(1, NaN)\<close> is \<open>NaN\<close>.\<close>

definition calcularDias :: "string \<Rightarrow> string \<Rightarrow> jsnum" where
  "calcularDias fechaInicio fechaFin =
     (case (Date_parse fechaInicio, Date_parse fechaFin) of
        (Some inicio, Some fin) \<Rightarrow>
          (let diff = fin - inicio
           in Finite (of_int (max 1 (\<lceil>(of_int diff :: rat) / of_int msPerDay\<rceil> + 1))))
      | _ \<Rightarrow> NaN)"

section \<open>Search history\<close>

record entry =
  query :: string
  timestamp :: string

definition MAX_ITEMS :: nat where
  "MAX_ITEMS = 10"

text \<open>
  \<open>saveSearchToHistory\<close>, as a function from the array read from storage to the array
  that is written back and kept in \<open>appState.searchHistory\<close>. \<open>now\<close> is
  \<open>new Date().toISOString()\<close>.
\<close>

definition saveSearchToHistory :: "string \<Rightarrow> string \<Rightarrow> entry list \<Rightarrow> entry list" where
  "saveSearchToHistory q now searchHistory =
     (let normalizedQuery = toLowerCase (trim q);
          searchHistory = filter (\<lambda>item. query item \<noteq> normalizedQuery) searchHistory;
          searchHistory = \<lparr>query = normalizedQuery, timestamp = now\<rparr> # searchHistory
      in take MAX_ITEMS searchHistory)"

text \<open>The history after a sequence of saves, oldest first, on a storage that held no
  history before.\<close>

definition historial :: "(string \<times> string) list \<Rightarrow> entry list" where
  "historial saves = foldl (\<lambda>h (q, now). saveSearchToHistory q now h) [] saves"

section \<open>Reading from local storage\<close>

text \<open>
  Local storage maps keys to strings; a browser that denies access raises on every
  read. \<open>JSON.parse\<close> is an argument of the model: it returns a value or raises a
  SyntaxError. \<open>cargarItinerarios\<close> takes the parsed value to be an array of records;
  a stored text that parses to anything else is outside the model.
\<close>

datatype localStorage = Denied | Items "string \<rightharpoonup> string"

definition getItem :: "localStorage \<Rightarrow> string \<Rightarrow> error + string option" where
  "getItem ls key = (case ls of Denied \<Rightarrow> Inl SecurityError | Items m \<Rightarrow> Inr (m key))"

text \<open>\<open>getStorage\<close>: the body of the \<open>try\<close> block, then the \<open>catch\<close> that returns the
  default. \<open>item ? JSON.parse(item) : defaultValue\<close> takes the default for \<open>null\<close> and
  for the empty string.\<close>

definition getStorage_try :: "(string \<Rightarrow> error + 'v) \<Rightarrow> localStorage \<Rightarrow> string \<Rightarrow> 'v \<Rightarrow> error + 'v" where
  "getStorage_try JSON_parse ls key defaultValue =
     (case getItem ls key of
        Inl e \<Rightarrow> Inl e
      | Inr item \<Rightarrow>
          (case item of
             None \<Rightarrow> Inr defaultValue
           | Some s \<Rightarrow> if s \<noteq> [] then JSON_parse s else Inr defaultValue))"

definition getStorage :: "(string \<Rightarrow> error + 'v) \<Rightarrow> localStorage \<Rightarrow> string \<Rightarrow> 'v \<Rightarrow> error + 'v" where
  "getStorage JSON_parse ls key defaultValue =
     (case getStorage_try JSON_parse ls key defaultValue of
        Inl e \<Rightarrow> Inr defaultValue
      | Inr v \<Rightarrow> Inr v)"

definition STORAGE_KEY :: string where
  "STORAGE_KEY = ''wanderlust_itineraries''"

definition cargarItinerarios :: "(string \<Rightarrow> error + itinerario list) \<Rightarrow> localStorage \<Rightarrow> state \<Rightarrow> error + state" where
  "cargarItinerarios JSON_parse ls st =
     (case getStorage JSON_parse ls STORAGE_KEY [] of
        Inl e \<Rightarrow> Inl e
      | Inr v \<Rightarrow> Inr (st\<lparr>itinerarios := v\<rparr>))"

section \<open>Sample data\<close>

definition ej_tokio :: itinerario where
  "ej_tokio =
     [''id'' \<mapsto> JStr ''it_19c0a1b2c3d'', ''nombre'' \<mapsto> JStr ''Verano'',
      ''destino'' \<mapsto> JStr ''Tokyo'', ''fechaInicio'' \<mapsto> JStr ''2026-03-01'',
      ''fechaFin'' \<mapsto> JStr ''2026-03-03'', ''estado'' \<mapsto> JStr ''planificando'',
      ''budget'' \<mapsto> JNum (Finite 1500), ''notas'' \<mapsto> JStr '''',
      ''creadoEn'' \<mapsto> JStr ''2026-01-15T09:30:00.000Z'']"

definition ej_paris :: itinerario where
  "ej_paris =
     [''id'' \<mapsto> JStr ''it_19c0a1b2c3e'', ''nombre'' \<mapsto> JStr ''Escapada'',
      ''destino'' \<mapsto> JStr ''Paris'', ''fechaInicio'' \<mapsto> JStr ''2026-05-10'',
      ''fechaFin'' \<mapsto> JStr ''2026-05-12'', ''estado'' \<mapsto> JStr ''completado'',
      ''budget'' \<mapsto> JNum (Finite 900), ''notas'' \<mapsto> JStr '''',
      ''creadoEn'' \<mapsto> JStr ''2026-01-16T09:30:00.000Z'']"

definition ej_state :: state where
  "ej_state = \<lparr>itinerarios = [ej_tokio, ej_paris], filtroActual = ''todos'', busqueda = '''',
     editandoId = None, eliminandoId = None\<rparr>"

definition ej_form :: dom where
  "ej_form = \<lparr>input_nombre = ''Verano'', input_destino = '' Tokyo '',
     input_fecha_inicio = ''2026-03-01'', input_fecha_fin = ''2026-03-03'',
     input_estado = ''planificando'', input_budget = ''0'', input_notas = '''',
     fg_nombre = False, fg_destino = False, fg_fecha_inicio = False, fg_fecha_fin = False\<rparr>"

definition ej_invalido :: dom where
  "ej_invalido = \<lparr>input_nombre = '''', input_destino = ''X'',
     input_fecha_inicio = ''2026-01-01'', input_fecha_fin = ''2025-12-31'',
     input_estado = ''planificando'', input_budget = '''', input_notas = '''',
     fg_nombre = True, fg_destino = True, fg_fecha_inicio = True, fg_fecha_fin = False\<rparr>"

text \<open>A stand-in for \<open>JSON.parse\<close> on two texts: one is the serialised sample
  collection, every other text is rejected.\<close>

definition ej_parse :: "string \<Rightarrow> error + itinerario list" where
  "ej_parse s = (if s = ''[tokio,paris]'' then Inr [ej_tokio, ej_paris] else Inl SyntaxError)"

section \<open>Lemmas on findIndex\<close>

lemma findIndex_None_iff: "findIndex P xs = None \<longleftrightarrow> (\<forall>x \<in> set xs. \<not> P x)"
  by (induction xs) auto

lemma findIndex_Some_iff:
  "findIndex P xs = Some i \<longleftrightarrow> i < length xs \<and> P (xs ! i) \<and> (\<forall>j < i. \<not> P (xs ! j))"
proof (induction xs arbitrary: i)
  case Nil
  then show ?case by simp
next
  case (Cons x xs)
  show ?case
  proof (cases "P x")
    case True
    then show ?thesis by (cases i) auto
  next
    case False
    show ?thesis
    proof (cases i)
      case 0
      with False show ?thesis by simp
    next
      case (Suc k)
      have "(\<forall>j < Suc k. \<not> P ((x # xs) ! j)) \<longleftrightarrow> (\<forall>j < k. \<not> P (xs ! j))"
        using False by (auto simp: less_Suc_eq_0_disj)
      with False Suc Cons.IH [of k] show ?thesis by auto
    qed
  qed
qed

section \<open>Edit\<close>

text \<open>
  Claim C1. If no record of the collection has the id, \<open>editarItinerario\<close> returns
  false and leaves the state as it was. Otherwise it returns true, and the first record
  with that id becomes the old record overlaid with the supplied fields and the
  \<open>actualizadoEn\<close> stamp: every supplied field other than the stamp has its supplied
  value, every field that is neither supplied nor the stamp keeps its previous value
  (so \<open>nombre\<close>, \<open>destino\<close> and the dates stay when the payload leaves them out), and
  all other records and the rest of the state are untouched.
\<close>

theorem editarItinerario_merge:
  "((\<forall>it \<in> set (itinerarios st). \<not> has_id iid it) \<longrightarrow>
      editarItinerario now iid datos st = (False, st)) \<and>
   ((\<exists>it \<in> set (itinerarios st). has_id iid it) \<longrightarrow>
      (\<exists>index st'. editarItinerario now iid datos st = (True, st') \<and>
         index < length (itinerarios st) \<and>
         has_id iid (itinerarios st ! index) \<and>
         (\<forall>j < index. \<not> has_id iid (itinerarios st ! j)) \<and>
         length (itinerarios st') = length (itinerarios st) \<and>
         (itinerarios st' ! index) ''actualizadoEn'' = Some (JStr now) \<and>
         (\<forall>k v. datos k = Some v \<and> k \<noteq> ''actualizadoEn'' \<longrightarrow>
            (itinerarios st' ! index) k = Some v) \<and>
         (\<forall>k. datos k = None \<and> k \<noteq> ''actualizadoEn'' \<longrightarrow>
            (itinerarios st' ! index) k = (itinerarios st ! index) k) \<and>
         (\<forall>j < length (itinerarios st). j \<noteq> index \<longrightarrow>
            itinerarios st' ! j = itinerarios st ! j) \<and>
         filtroActual st' = filtroActual st \<and> busqueda st' = busqueda st \<and>
         editandoId st' = editandoId st \<and> eliminandoId st' = eliminandoId st))"
proof (intro conjI impI)
  assume "\<forall>it \<in> set (itinerarios st). \<not> has_id iid it"
  then have "findIndex (has_id iid) (itinerarios st) = None"
    by (simp add: findIndex_None_iff)
  then show "editarItinerario now iid datos st = (False, st)"
    by (simp add: editarItinerario_def)
next
  assume "\<exists>it \<in> set (itinerarios st). has_id iid it"
  then have "findIndex (has_id iid) (itinerarios st) \<noteq> None"
    by (simp add: findIndex_None_iff)
  then obtain index where fi: "findIndex (has_id iid) (itinerarios st) = Some index"
    by blast
  then have idx: "index < length (itinerarios st)" "has_id iid (itinerarios st ! index)"
    "\<forall>j < index. \<not> has_id iid (itinerarios st ! j)"
    by (simp_all add: findIndex_Some_iff)
  define st' where "st' = st\<lparr>itinerarios := (itinerarios st)
     [index := (itinerarios st ! index) ++ datos ++ [''actualizadoEn'' \<mapsto> JStr now]]\<rparr>"
  have run: "editarItinerario now iid datos st = (True, st')"
    using fi by (simp add: editarItinerario_def st'_def)
  have rec: "itinerarios st' ! index =
      (itinerarios st ! index) ++ datos ++ [''actualizadoEn'' \<mapsto> JStr now]"
    using idx(1) by (simp add: st'_def)
  have supplied: "\<forall>k v. datos k = Some v \<and> k \<noteq> ''actualizadoEn'' \<longrightarrow>
      (itinerarios st' ! index) k = Some v"
    unfolding rec by (simp add: map_add_def)
  have kept: "\<forall>k. datos k = None \<and> k \<noteq> ''actualizadoEn'' \<longrightarrow>
      (itinerarios st' ! index) k = (itinerarios st ! index) k"
    unfolding rec by (simp add: map_add_def)
  have others: "\<forall>j < length (itinerarios st). j \<noteq> index \<longrightarrow>
      itinerarios st' ! j = itinerarios st ! j"
    by (simp add: st'_def)
  have stamp: "(itinerarios st' ! index) ''actualizadoEn'' = Some (JStr now)"
    unfolding rec by simp
  have rest: "length (itinerarios st') = length (itinerarios st)"
    "filtroActual st' = filtroActual st" "busqueda st' = busqueda st"
    "editandoId st' = editandoId st" "eliminandoId st' = eliminandoId st"
    by (simp_all add: st'_def)
  show "\<exists>index st'. editarItinerario now iid datos st = (True, st') \<and>
         index < length (itinerarios st) \<and>
         has_id iid (itinerarios st ! index) \<and>
         (\<forall>j < index. \<not> has_id iid (itinerarios st ! j)) \<and>
         length (itinerarios st') = length (itinerarios st) \<and>
         (itinerarios st' ! index) ''actualizadoEn'' = Some (JStr now) \<and>
         (\<forall>k v. datos k = Some v \<and> k \<noteq> ''actualizadoEn'' \<longrightarrow>
            (itinerarios st' ! index) k = Some v) \<and>
         (\<forall>k. datos k = None \<and> k \<noteq> ''actualizadoEn'' \<longrightarrow>
            (itinerarios st' ! index) k = (itinerarios st ! index) k) \<and>
         (\<forall>j < length (itinerarios st). j \<noteq> index \<longrightarrow>
            itinerarios st' ! j = itinerarios st ! j) \<and>
         filtroActual st' = filtroActual st \<and> busqueda st' = busqueda st \<and>
         editandoId st' = editandoId st \<and> eliminandoId st' = eliminandoId st"
    using run idx stamp supplied kept others rest by blast
qed

text \<open>The theorem at the sample collection: confirming the Tokyo trip changes its state
  and stamps it, and the name and the dates stay.\<close>

theorem editarItinerario_merge_witness:
  "(\<exists>it \<in> set (itinerarios ej_state). has_id ''it_19c0a1b2c3d'' it) \<and>
   (\<exists>st'. editarItinerario ''2026-02-01T10:00:00.000Z'' ''it_19c0a1b2c3d''
             [''estado'' \<mapsto> JStr ''confirmado''] ej_state = (True, st') \<and>
      (itinerarios st' ! 0) ''estado'' = Some (JStr ''confirmado'') \<and>
      (itinerarios st' ! 0) ''nombre'' = Some (JStr ''Verano'') \<and>
      (itinerarios st' ! 0) ''fechaFin'' = Some (JStr ''2026-03-03'') \<and>
      (itinerarios st' ! 0) ''actualizadoEn'' = Some (JStr ''2026-02-01T10:00:00.000Z''))"
proof -
  let ?datos = "[''estado'' \<mapsto> JStr ''confirmado'']"
  let ?now = "''2026-02-01T10:00:00.000Z''"
  have h: "\<exists>it \<in> set (itinerarios ej_state). has_id ''it_19c0a1b2c3d'' it"
    by (simp add: ej_state_def ej_tokio_def has_id_def)
  with editarItinerario_merge [of ej_state "''it_19c0a1b2c3d''" ?now ?datos]
  obtain index st' where r: "editarItinerario ?now ''it_19c0a1b2c3d'' ?datos ej_state = (True, st')"
    and i: "has_id ''it_19c0a1b2c3d'' (itinerarios ej_state ! index)"
       "index < length (itinerarios ej_state)"
    and s: "\<forall>k v. ?datos k = Some v \<and> k \<noteq> ''actualizadoEn'' \<longrightarrow>
            (itinerarios st' ! index) k = Some v"
    and k: "\<forall>k. ?datos k = None \<and> k \<noteq> ''actualizadoEn'' \<longrightarrow>
            (itinerarios st' ! index) k = (itinerarios ej_state ! index) k"
    and t: "(itinerarios st' ! index) ''actualizadoEn'' = Some (JStr ?now)"
    by blast
  from i have i0: "index = 0"
    by (cases index) (auto simp: ej_state_def ej_paris_def has_id_def less_Suc_eq_0_disj)
  from s i0 have a: "(itinerarios st' ! 0) ''estado'' = Some (JStr ''confirmado'')" by simp
  from k i0 have b: "(itinerarios st' ! 0) ''nombre'' = Some (JStr ''Verano'')"
    "(itinerarios st' ! 0) ''fechaFin'' = Some (JStr ''2026-03-03'')"
    by (simp_all add: ej_state_def ej_tokio_def)
  from h r a b t i0 show ?thesis by blast
qed

section \<open>Substrings and the search predicate\<close>

lemma startsWith_iff: "startsWith s q \<longleftrightarrow> (\<exists>ss. s = q @ ss)"
  by (induction s q rule: startsWith.induct) auto

lemma includes_str_iff: "includes_str s q \<longleftrightarrow> (\<exists>ps ss. s = ps @ q @ ss)"
proof (induction s)
  case Nil
  then show ?case by auto
next
  case (Cons c cs)
  have "(\<exists>ps ss. c # cs = ps @ q @ ss) \<longleftrightarrow>
        (\<exists>ss. c # cs = q @ ss) \<or> (\<exists>ps ss. cs = ps @ q @ ss)"
    by (auto simp: Cons_eq_append_conv)
  with Cons show ?case by (simp add: startsWith_iff)
qed

lemma is_text_iff: "is_text v \<longleftrightarrow> (\<exists>s. v = Some (JStr s))"
  by (auto simp: is_text_def split: option.splits jsval.splits)

lemma coincideBusqueda_textual:
  assumes "textual it"
  shows "coincideBusqueda q it =
    Inr ((\<exists>d. it ''destino'' = Some (JStr d) \<and> includes_str (toLowerCase d) q) \<or>
         (\<exists>n. it ''nombre'' = Some (JStr n) \<and> includes_str (toLowerCase n) q))"
proof -
  from assms obtain d n where dn: "it ''destino'' = Some (JStr d)" "it ''nombre'' = Some (JStr n)"
    by (auto simp: textual_def is_text_iff)
  then show ?thesis
    by (simp add: coincideBusqueda_def toLowerCase_of_def)
qed

lemma filterE_total:
  "(\<forall>x \<in> set xs. p x = Inr (P x)) \<Longrightarrow> filterE p xs = Inr (filter P xs)"
  by (induction xs) auto

lemma filter_filter_conj: "filter Q (filter P xs) = filter (\<lambda>x. P x \<and> Q x) xs"
  by (induction xs) auto

lemma getItinerariosFiltrados_textual:
  assumes wf: "\<forall>it \<in> set (itinerarios st). textual it"
  shows "fst (getItinerariosFiltrados st) =
     Inr (filter
            (\<lambda>it. (filtroActual st = ''todos'' \<or>
                   it ''estado'' = Some (JStr (filtroActual st))) \<and>
                  (trim (busqueda st) = [] \<or>
                   (\<exists>d. it ''destino'' = Some (JStr d) \<and>
                      includes_str (toLowerCase d) (toLowerCase (busqueda st))) \<or>
                   (\<exists>n. it ''nombre'' = Some (JStr n) \<and>
                      includes_str (toLowerCase n) (toLowerCase (busqueda st)))))
            (itinerarios st))"
proof -
  let ?A = "\<lambda>it. filtroActual st = ''todos'' \<or> it ''estado'' = Some (JStr (filtroActual st))"
  let ?q = "toLowerCase (busqueda st)"
  let ?B = "\<lambda>it. (\<exists>d. it ''destino'' = Some (JStr d) \<and> includes_str (toLowerCase d) ?q) \<or>
                  (\<exists>n. it ''nombre'' = Some (JStr n) \<and> includes_str (toLowerCase n) ?q)"
  let ?lista = "filter ?A (itinerarios st)"
  have lista: "(if filtroActual st \<noteq> ''todos''
                then filter (\<lambda>it. it ''estado'' = Some (JStr (filtroActual st))) (itinerarios st)
                else itinerarios st) = ?lista"
    by simp
  have "\<forall>it \<in> set ?lista. coincideBusqueda ?q it = Inr (?B it)"
    using wf by (simp add: coincideBusqueda_textual)
  then have "filterE (coincideBusqueda ?q) ?lista = Inr (filter ?B ?lista)"
    by (rule filterE_total)
  then have run: "fst (getItinerariosFiltrados st) =
      (if trim (busqueda st) \<noteq> [] then Inr (filter ?B ?lista) else Inr ?lista)"
    unfolding getItinerariosFiltrados_def Let_def lista by simp
  have "(if trim (busqueda st) \<noteq> [] then filter ?B ?lista else ?lista) =
      filter (\<lambda>it. ?A it \<and> (trim (busqueda st) = [] \<or> ?B it)) (itinerarios st)"
    by (simp add: filter_filter_conj)
  with run show ?thesis
    by (simp split: if_splits)
qed

lemma lower_samples:
  "toLowerCase ''Tokyo'' = ''tokyo''" "toLowerCase ''Paris'' = ''paris''"
  "toLowerCase ''Verano'' = ''verano''" "toLowerCase ''Escapada'' = ''escapada''"
  "toLowerCase ''toK'' = ''tok''" "toLowerCase '' tokyo'' = '' tokyo''"
  "toLowerCase ''tokyo'' = ''tokyo''"
  by code_simp+

section \<open>Form validation\<close>

lemma validarForm_eq:
  "validarForm d =
     (trim (input_nombre d) \<noteq> [] \<and> trim (input_destino d) \<noteq> [] \<and>
      input_fecha_inicio d \<noteq> [] \<and>
      \<not> (input_fecha_fin d = [] \<or>
           (input_fecha_inicio d \<noteq> [] \<and> input_fecha_fin d < input_fecha_inicio d)),
      d\<lparr>fg_nombre := (trim (input_nombre d) = []),
        fg_destino := (trim (input_destino d) = []),
        fg_fecha_inicio := (input_fecha_inicio d = []),
        fg_fecha_fin := (input_fecha_fin d = [] \<or>
           (input_fecha_inicio d \<noteq> [] \<and> input_fecha_fin d < input_fecha_inicio d))\<rparr>)"
proof -
  define A where "A = (trim (input_nombre d) = [])"
  define B where "B = (trim (input_destino d) = [])"
  define C where "C = (input_fecha_inicio d = [])"
  define D where "D = (input_fecha_fin d = [] \<or>
           (input_fecha_inicio d \<noteq> [] \<and> input_fecha_fin d < input_fecha_inicio d))"
  have "validarForm d =
     (let d0 = limpiarErroresForm d;
          (valido, d1) = (if A then (False, d0\<lparr>fg_nombre := True\<rparr>) else (True, d0));
          (valido, d2) = (if B then (False, d1\<lparr>fg_destino := True\<rparr>) else (valido, d1));
          (valido, d3) = (if C then (False, d2\<lparr>fg_fecha_inicio := True\<rparr>) else (valido, d2));
          (valido, d4) = (if D then (False, d3\<lparr>fg_fecha_fin := True\<rparr>) else (valido, d3))
      in (valido, d4))"
    by (simp add: validarForm_def limpiarErroresForm_def Let_def A_def B_def C_def D_def)
  also have "\<dots> = (\<not> A \<and> \<not> B \<and> \<not> C \<and> \<not> D,
      d\<lparr>fg_nombre := A, fg_destino := B, fg_fecha_inicio := C, fg_fecha_fin := D\<rparr>)"
    by (cases A; cases B; cases C; cases D) (simp_all add: limpiarErroresForm_def)
  finally show ?thesis
    unfolding A_def B_def C_def D_def by simp
qed


text \<open>
  Claim C3. \<open>validarForm\<close> accepts exactly when the four rules hold: the name and the
  destination are not blank after trimming, the start date is present, and the end date
  is present and, when the start date is present, not before it in the lexicographic
  order of the strings. Each rule sets its own flag whatever the other rules say, and
  the inputs are not changed. On the form with an empty name, destination \<open>X\<close>, start
  \<open>2026-01-01\<close> and end \<open>2025-12-31\<close> the flags of the name and of the end date are
  set, and those of the destination and the start date are not.
\<close>

theorem validarForm_reglas:
  "fst (validarForm d) =
     (trim (input_nombre d) \<noteq> [] \<and> trim (input_destino d) \<noteq> [] \<and>
      input_fecha_inicio d \<noteq> [] \<and>
      (input_fecha_fin d \<noteq> [] \<and>
         (input_fecha_inicio d \<noteq> [] \<longrightarrow> input_fecha_inicio d \<le> input_fecha_fin d))) \<and>
   fg_nombre (snd (validarForm d)) = (trim (input_nombre d) = []) \<and>
   fg_destino (snd (validarForm d)) = (trim (input_destino d) = []) \<and>
   fg_fecha_inicio (snd (validarForm d)) = (input_fecha_inicio d = []) \<and>
   fg_fecha_fin (snd (validarForm d)) =
     (\<not> (input_fecha_fin d \<noteq> [] \<and>
         (input_fecha_inicio d \<noteq> [] \<longrightarrow> input_fecha_inicio d \<le> input_fecha_fin d))) \<and>
   snd (validarForm d) =
     d\<lparr>fg_nombre := fg_nombre (snd (validarForm d)),
       fg_destino := fg_destino (snd (validarForm d)),
       fg_fecha_inicio := fg_fecha_inicio (snd (validarForm d)),
       fg_fecha_fin := fg_fecha_fin (snd (validarForm d))\<rparr> \<and>
   \<not> fst (validarForm ej_invalido) \<and>
   fg_nombre (snd (validarForm ej_invalido)) \<and>
   \<not> fg_destino (snd (validarForm ej_invalido)) \<and>
   \<not> fg_fecha_inicio (snd (validarForm ej_invalido)) \<and>
   fg_fecha_fin (snd (validarForm ej_invalido))"
proof -
  have ej: "trim (input_nombre ej_invalido) = []" "trim (input_destino ej_invalido) \<noteq> []"
    "input_fecha_inicio ej_invalido \<noteq> []" "input_fecha_fin ej_invalido \<noteq> []"
    "input_fecha_fin ej_invalido < input_fecha_inicio ej_invalido"
    by (simp_all add: ej_invalido_def trim_def isWhiteSpace_def)
  have 1: "fst (validarForm d) =
     (trim (input_nombre d) \<noteq> [] \<and> trim (input_destino d) \<noteq> [] \<and>
      input_fecha_inicio d \<noteq> [] \<and>
      (input_fecha_fin d \<noteq> [] \<and>
         (input_fecha_inicio d \<noteq> [] \<longrightarrow> input_fecha_inicio d \<le> input_fecha_fin d)))"
    by (auto simp: validarForm_eq not_less)
  have 2: "fg_nombre (snd (validarForm d)) = (trim (input_nombre d) = [])"
    by (simp add: validarForm_eq)
  have 3: "fg_destino (snd (validarForm d)) = (trim (input_destino d) = [])"
    by (simp add: validarForm_eq)
  have 4: "fg_fecha_inicio (snd (validarForm d)) = (input_fecha_inicio d = [])"
    by (simp add: validarForm_eq)
  have 5: "fg_fecha_fin (snd (validarForm d)) =
     (\<not> (input_fecha_fin d \<noteq> [] \<and>
         (input_fecha_inicio d \<noteq> [] \<longrightarrow> input_fecha_inicio d \<le> input_fecha_fin d)))"
    by (auto simp: validarForm_eq not_less)
  have 6: "snd (validarForm d) =
     d\<lparr>fg_nombre := fg_nombre (snd (validarForm d)),
       fg_destino := fg_destino (snd (validarForm d)),
       fg_fecha_inicio := fg_fecha_inicio (snd (validarForm d)),
       fg_fecha_fin := fg_fecha_fin (snd (validarForm d))\<rparr>"
    by (simp add: validarForm_eq)
  have 7: "\<not> fst (validarForm ej_invalido)" "fg_nombre (snd (validarForm ej_invalido))"
    "\<not> fg_destino (snd (validarForm ej_invalido))"
    "\<not> fg_fecha_inicio (snd (validarForm ej_invalido))"
    "fg_fecha_fin (snd (validarForm ej_invalido))"
    using ej by (simp_all add: validarForm_eq)
  from 1 2 3 4 5 6 7 show ?thesis by blast
qed

text \<open>The theorem on two forms: the sample form passes all four rules and is accepted;
  the form of the claim breaks the rule on the name and the rule on the end date.\<close>

theorem validarForm_reglas_witness:
  "input_fecha_inicio ej_form \<noteq> [] \<and> input_fecha_inicio ej_form \<le> input_fecha_fin ej_form \<and>
   fst (validarForm ej_form) \<and>
   input_fecha_inicio ej_invalido \<noteq> [] \<and>
   \<not> input_fecha_inicio ej_invalido \<le> input_fecha_fin ej_invalido \<and>
   \<not> fst (validarForm ej_invalido) \<and> fg_fecha_fin (snd (validarForm ej_invalido))"
proof -
  have a: "input_fecha_inicio ej_form \<noteq> []"
    "input_fecha_inicio ej_form \<le> input_fecha_fin ej_form"
    "trim (input_nombre ej_form) \<noteq> []" "trim (input_destino ej_form) \<noteq> []"
    "input_fecha_fin ej_form \<noteq> []"
    by (simp_all add: ej_form_def trim_def isWhiteSpace_def)
  have b: "input_fecha_inicio ej_invalido \<noteq> []"
    "\<not> input_fecha_inicio ej_invalido \<le> input_fecha_fin ej_invalido"
    by (simp_all add: ej_invalido_def)
  from a validarForm_reglas [of ej_form] have c: "fst (validarForm ej_form)"
    by simp
  from b validarForm_reglas [of ej_invalido]
  have d: "\<not> fst (validarForm ej_invalido)" "fg_fecha_fin (snd (validarForm ej_invalido))"
    by simp_all
  from a b c d show ?thesis by blast
qed

section \<open>Saving the form\<close>

lemma datosForm_validarForm: "datosForm (snd (validarForm d)) = datosForm d"
  by (simp add: validarForm_eq datosForm_def)

lemma handleGuardar_invalido:
  "\<not> fst (validarForm d) \<Longrightarrow> snd (handleGuardar nowMs nowIso (d, st)) = st"
  by (cases "validarForm d") (simp add: handleGuardar_def Let_def)

lemma handleGuardar_crear:
  "fst (validarForm d) \<Longrightarrow> \<not> truthy_id (editandoId st) \<Longrightarrow>
   snd (handleGuardar nowMs nowIso (d, st)) =
     snd (crearItinerario nowMs nowIso (datosForm d) st)"
  using datosForm_validarForm [of d]
  by (cases "validarForm d") (simp add: handleGuardar_def Let_def)

lemma handleGuardar_editar:
  "fst (validarForm d) \<Longrightarrow> truthy_id (editandoId st) \<Longrightarrow>
   snd (handleGuardar nowMs nowIso (d, st)) =
     snd (editarItinerario nowIso (the (editandoId st)) (datosForm d) st)"
  using datosForm_validarForm [of d]
  by (cases "validarForm d") (simp add: handleGuardar_def Let_def)

lemma datosForm_budget:
  "datosForm d ''budget'' = Some (JNum (or_num (parseFloat (input_budget d)) (Finite 1500)))"
  by (simp add: datosForm_def)

lemma parseFloat_samples:
  "parseFloat '''' = NaN" "parseFloat ''0'' = Finite 0" "parseFloat ''abc'' = NaN"
  "parseFloat ''2000'' = Finite 2000" "parseFloat ''1500'' = Finite 1500"
  by (simp_all add: parseFloat_def trimStart_def isWhiteSpace_def isDigit_def digitsVal_def
      digitVal_def exponentPart_def scale10_def)

lemma crearItinerario_budget:
  "hd (itinerarios (snd (crearItinerario nowMs nowIso (datosForm d) st))) ''budget'' =
     datosForm d ''budget''"
  by (simp add: crearItinerario_def Let_def map_add_def datosForm_def)

text \<open>
  Claim C6 as stated fails on the budget input \<open>0\<close>: the input is present and
  numeric, \<open>parseFloat\<close> gives zero, and yet the budget built by \<open>handleGuardar\<close> is
  the fallback 1500 and not the parsed value.
\<close>

theorem budget_counterexample:
  "parseFloat (input_budget ej_form) = Finite 0 \<and>
   datosForm ej_form ''budget'' = Some (JNum (Finite 1500))"
  by (simp add: datosForm_budget ej_form_def parseFloat_samples or_num_def truthy_num_def)

text \<open>
  Claim C6, amended. The budget that \<open>handleGuardar\<close> builds is the fallback 1500 when
  \<open>parseFloat\<close> of the input is \<open>NaN\<close> (an absent or non-numeric input) and also
  when it is zero; in every other case it is the parsed number. Validation does not
  look at the budget input: changing it changes neither the verdict nor the flags, and
  a valid form saved as a new record stores the coerced budget.
\<close>

theorem budget_coercion:
  "datosForm d ''budget'' =
     Some (JNum (if parseFloat (input_budget d) = NaN \<or> parseFloat (input_budget d) = Finite 0
                 then Finite 1500 else parseFloat (input_budget d))) \<and>
   parseFloat '''' = NaN \<and>
   validarForm (d\<lparr>input_budget := b\<rparr>) =
     (fst (validarForm d), (snd (validarForm d))\<lparr>input_budget := b\<rparr>) \<and>
   (fst (validarForm d) \<and> \<not> truthy_id (editandoId st) \<longrightarrow>
      hd (itinerarios (snd (handleGuardar nowMs nowIso (d, st)))) ''budget'' =
        datosForm d ''budget'')"
proof (intro conjI impI)
  show "datosForm d ''budget'' =
     Some (JNum (if parseFloat (input_budget d) = NaN \<or> parseFloat (input_budget d) = Finite 0
                 then Finite 1500 else parseFloat (input_budget d)))"
    by (cases "parseFloat (input_budget d)")
       (simp_all add: datosForm_budget or_num_def truthy_num_def)
next
  show "parseFloat '''' = NaN" by (rule parseFloat_samples)
next
  show "validarForm (d\<lparr>input_budget := b\<rparr>) =
     (fst (validarForm d), (snd (validarForm d))\<lparr>input_budget := b\<rparr>)"
    by (simp add: validarForm_eq)
next
  assume "fst (validarForm d) \<and> \<not> truthy_id (editandoId st)"
  then show "hd (itinerarios (snd (handleGuardar nowMs nowIso (d, st)))) ''budget'' =
        datosForm d ''budget''"
    by (simp add: handleGuardar_crear crearItinerario_budget)
qed

text \<open>The amended claim on the sample form: the budget input \<open>0\<close> is stored as 1500
  and the input \<open>2000\<close> as 2000.\<close>

theorem budget_coercion_witness:
  "fst (validarForm ej_form) \<and> \<not> truthy_id (editandoId ej_state) \<and>
   hd (itinerarios (snd (handleGuardar 1772000000000 ''2026-02-25T06:13:20.000Z''
         (ej_form, ej_state)))) ''budget'' = Some (JNum (Finite 1500)) \<and>
   hd (itinerarios (snd (handleGuardar 1772000000000 ''2026-02-25T06:13:20.000Z''
         (ej_form\<lparr>input_budget := ''2000''\<rparr>, ej_state)))) ''budget'' = Some (JNum (Finite 2000))"
proof -
  let ?d2 = "ej_form\<lparr>input_budget := ''2000''\<rparr>"
  let ?iso = "''2026-02-25T06:13:20.000Z''"
  have v: "fst (validarForm ej_form)"
    by (simp add: validarForm_eq ej_form_def trim_def isWhiteSpace_def)
  have v2: "fst (validarForm ?d2)"
    by (simp add: validarForm_eq ej_form_def trim_def isWhiteSpace_def)
  have e: "\<not> truthy_id (editandoId ej_state)"
    by (simp add: ej_state_def truthy_id_def)
  have p: "parseFloat (input_budget ej_form) = Finite 0"
    "parseFloat (input_budget ?d2) = Finite 2000"
    by (simp_all add: ej_form_def parseFloat_samples)
  note t1 = budget_coercion [where d = ej_form and st = ej_state and nowMs = 1772000000000
      and nowIso = ?iso and b = "''0''"]
  note t2 = budget_coercion [where d = ?d2 and st = ej_state and nowMs = 1772000000000
      and nowIso = ?iso and b = "''0''"]
  from t1 v e have "hd (itinerarios (snd (handleGuardar 1772000000000 ?iso
         (ej_form, ej_state)))) ''budget'' =
      Some (JNum (if parseFloat (input_budget ej_form) = NaN \<or>
                     parseFloat (input_budget ej_form) = Finite 0
                  then Finite 1500 else parseFloat (input_budget ej_form)))"
    by metis
  then have a: "hd (itinerarios (snd (handleGuardar 1772000000000 ?iso
         (ej_form, ej_state)))) ''budget'' = Some (JNum (Finite 1500))"
    by (simp only: p) simp
  from t2 v2 e have "hd (itinerarios (snd (handleGuardar 1772000000000 ?iso
         (?d2, ej_state)))) ''budget'' =
      Some (JNum (if parseFloat (input_budget ?d2) = NaN \<or>
                     parseFloat (input_budget ?d2) = Finite 0
                  then Finite 1500 else parseFloat (input_budget ?d2)))"
    by metis
  then have b: "hd (itinerarios (snd (handleGuardar 1772000000000 ?iso
         (?d2, ej_state)))) ''budget'' = Some (JNum (Finite 2000))"
    by (simp only: p) simp
  from v e a b show ?thesis by blast
qed

section \<open>Digit strings and their order\<close>

lemma append_less_same_length:
  fixes xs ys :: "'a::linorder list"
  shows "length xs = length ys \<Longrightarrow> (xs @ r < ys @ r') \<longleftrightarrow> (xs < ys \<or> xs = ys \<and> r < r')"
  by (induction xs ys rule: list_induct2) auto

lemma foldl_digits:
  "foldl (\<lambda>a c. 10 * a + digitVal c) a cs =
     a * 10 ^ length cs + foldl (\<lambda>a c. 10 * a + digitVal c) 0 cs"
proof (induction cs arbitrary: a)
  case Nil
  then show ?case by simp
next
  case (Cons c cs)
  show ?case
    using Cons.IH [of "10 * a + digitVal c"] Cons.IH [of "digitVal c"]
    by (simp add: algebra_simps)
qed

lemma digitsVal_Cons: "digitsVal (c # cs) = digitVal c * 10 ^ length cs + digitsVal cs"
  using foldl_digits [of "digitVal c" cs] by (simp add: digitsVal_def)

lemma digitVal_bound: "isDigit c \<Longrightarrow> digitVal c < 10"
  by (auto simp: isDigit_def digitVal_def)

lemma digitsVal_bound: "list_all isDigit cs \<Longrightarrow> digitsVal cs < 10 ^ length cs"
proof (induction cs)
  case Nil
  then show ?case by (simp add: digitsVal_def)
next
  case (Cons c cs)
  then have "digitVal c \<le> 9" and b: "digitsVal cs < 10 ^ length cs"
    using digitVal_bound [of c] by auto
  then have "digitVal c * 10 ^ length cs \<le> 9 * 10 ^ length cs"
    by simp
  with b have "digitVal c * 10 ^ length cs + digitsVal cs < 10 * 10 ^ length cs"
    by linarith
  then show ?case by (simp add: digitsVal_Cons)
qed

lemma radix_less:
  fixes P :: nat
  assumes "vx < P" "vy < P"
  shows "(dx * P + vx < dy * P + vy) \<longleftrightarrow> (dx < dy \<or> dx = dy \<and> vx < vy)"
proof -
  have up: "a * P + v < b * P + w" if "a < b" "v < P" for a b v w :: nat
  proof -
    from that have "Suc a * P \<le> b * P" by (intro mult_le_mono1) simp
    with that show ?thesis by simp
  qed
  show ?thesis
  proof (cases dx dy rule: linorder_cases)
    case less
    with up [OF less assms(1)] show ?thesis by simp
  next
    case equal
    then show ?thesis by simp
  next
    case greater
    from up [OF greater assms(2), of vx] greater show ?thesis by simp
  qed
qed

lemma digit_less: "isDigit c \<Longrightarrow> isDigit c' \<Longrightarrow> (c < c') = (digitVal c < digitVal c')"
  by (auto simp: isDigit_def digitVal_def less_char_def)

lemma digit_eq: "isDigit c \<Longrightarrow> isDigit c' \<Longrightarrow> (c = c') = (digitVal c = digitVal c')"
proof -
  assume d: "isDigit c" "isDigit c'"
  have "(c = c') = ((of_char c :: nat) = of_char c')" by simp
  also from d have "\<dots> = (digitVal c = digitVal c')"
    unfolding isDigit_def digitVal_def by linarith
  finally show ?thesis .
qed

lemma digits_less_iff:
  "length xs = length ys \<Longrightarrow> list_all isDigit xs \<Longrightarrow> list_all isDigit ys \<Longrightarrow>
   (xs < ys) = (digitsVal xs < digitsVal ys)"
proof (induction xs ys rule: list_induct2)
  case Nil
  then show ?case by simp
next
  case (Cons x xs y ys)
  then have b: "digitsVal xs < 10 ^ length xs" "digitsVal ys < 10 ^ length xs"
    using digitsVal_bound [of xs] digitsVal_bound [of ys] by auto
  from Cons have e: "(x = y) = (digitVal x = digitVal y)" "(x < y) = (digitVal x < digitVal y)"
    by (simp_all add: digit_eq digit_less)
  from Cons have IH: "(xs < ys) = (digitsVal xs < digitsVal ys)" by simp
  show ?case
    using radix_less [OF b, of "digitVal x" "digitVal y"] Cons.hyps
    by (simp add: digitsVal_Cons e IH)
qed

lemma digits_eq_iff:
  assumes "length xs = length ys" "list_all isDigit xs" "list_all isDigit ys"
  shows "(xs = ys) = (digitsVal xs = digitsVal ys)"
proof -
  have "(xs = ys) = (\<not> xs < ys \<and> \<not> ys < xs)"
    by auto
  also have "\<dots> = (\<not> digitsVal xs < digitsVal ys \<and> \<not> digitsVal ys < digitsVal xs)"
    using assms by (simp add: digits_less_iff)
  also have "\<dots> = (digitsVal xs = digitsVal ys)"
    by auto
  finally show ?thesis .
qed


section \<open>The day number\<close>

lemma div_step:
  fixes x :: int
  assumes "0 < n"
  shows "(x + 1) div n = x div n + (if (x + 1) mod n = 0 then 1 else 0)"
proof (cases "(x + 1) mod n = 0")
  case True
  then obtain q where q: "x + 1 = n * q" by (auto simp: mod_eq_0_iff_dvd)
  then have x: "x = n * (q - 1) + (n - 1)" by (simp add: algebra_simps)
  have "x div n = q - 1"
    unfolding x using assms by (simp add: div_pos_pos_trivial)
  moreover have "(x + 1) div n = q"
    unfolding q using assms by simp
  ultimately show ?thesis using True by simp
next
  case False
  define r where "r = x mod n"
  have r: "0 \<le> r" "r < n" using assms by (simp_all add: r_def)
  have x: "x = n * (x div n) + r" by (simp add: r_def)
  have "r + 1 \<noteq> n"
  proof
    assume "r + 1 = n"
    then have "x + 1 = n * (x div n + 1)" using x by (simp add: algebra_simps)
    then have "(x + 1) mod n = 0" by (metis mod_mult_self1_is_0)
    with False show False by simp
  qed
  with r have r1: "0 \<le> r + 1" "r + 1 < n" by simp_all
  have e: "x + 1 = n * (x div n) + (r + 1)" using x by linarith
  have "(x + 1) div n = (n * (x div n) + (r + 1)) div n"
    by (rule arg_cong [where f = "\<lambda>t. t div n", OF e])
  also have "\<dots> = x div n + (r + 1) div n"
    using assms by simp
  also have "(r + 1) div n = 0"
    using r1 by (simp add: div_pos_pos_trivial)
  finally show ?thesis using False by simp
qed


lemma DayFromYear_Suc:
  "DayFromYear (y + 1) = DayFromYear y + 365 + (if InLeapYear y then 1 else 0)"
proof -
  have m4: "(y - 1969 + 1) mod 4 = y mod 4"
  proof -
    have "y - 1969 + 1 = y + 4 * (- 492)" by simp
    then show ?thesis by (simp only: mod_mult_self2)
  qed
  have m100: "(y - 1901 + 1) mod 100 = y mod 100"
  proof -
    have "y - 1901 + 1 = y + 100 * (- 19)" by simp
    then show ?thesis by (simp only: mod_mult_self2)
  qed
  have m400: "(y - 1601 + 1) mod 400 = y mod 400"
  proof -
    have "y - 1601 + 1 = y + 400 * (- 4)" by simp
    then show ?thesis by (simp only: mod_mult_self2)
  qed
  have a: "(y - 1969 + 1) div 4 = (y - 1969) div 4 + (if y mod 4 = 0 then 1 else 0)"
    using div_step [of 4 "y - 1969"] by (simp only: m4)
  have b: "(y - 1901 + 1) div 100 = (y - 1901) div 100 + (if y mod 100 = 0 then 1 else 0)"
    using div_step [of 100 "y - 1901"] by (simp only: m100)
  have c: "(y - 1601 + 1) div 400 = (y - 1601) div 400 + (if y mod 400 = 0 then 1 else 0)"
    using div_step [of 400 "y - 1601"] by (simp only: m400)
  have "y mod 400 mod 100 = y mod 100" "y mod 100 mod 4 = y mod 4"
    by (simp_all add: mod_mod_cancel)
  then have d: "y mod 400 = 0 \<Longrightarrow> y mod 100 = 0" "y mod 100 = 0 \<Longrightarrow> y mod 4 = 0"
    by auto
  have e: "y + 1 - 1970 = (y - 1970) + 1" "y + 1 - 1969 = y - 1969 + 1"
    "y + 1 - 1901 = y - 1901 + 1" "y + 1 - 1601 = y - 1601 + 1"
    by simp_all
  have "DayFromYear (y + 1) = 365 * (y - 1970) + 365 + (y - 1969) div 4 - (y - 1901) div 100
      + (y - 1601) div 400 + ((if y mod 4 = 0 then 1 else 0) - (if y mod 100 = 0 then 1 else 0)
      + (if y mod 400 = 0 then 1 else 0))"
    unfolding DayFromYear_def e a b c by (simp add: algebra_simps)
  also have "(if y mod 4 = 0 then 1 else 0) - (if y mod 100 = 0 then 1 else 0)
      + (if y mod 400 = 0 then 1 else 0) = (if InLeapYear y then 1 else (0::int))"
    using d by (cases "y mod 4 = 0"; cases "y mod 100 = 0"; cases "y mod 400 = 0")
      (simp_all add: InLeapYear_def)
  finally show ?thesis
    by (simp add: DayFromYear_def)
qed



lemma DayFromYear_mono: "y \<le> y' \<Longrightarrow> DayFromYear y \<le> DayFromYear y'"
proof (induction y' rule: int_ge_induct)
  case base
  then show ?case by simp
next
  case (step i)
  then show ?case by (simp add: DayFromYear_Suc)
qed

lemma diasAntes_Suc:
  "1 \<le> m \<Longrightarrow> (\<Sum>k \<leftarrow> [1..<Suc m]. DaysInMonth y k) = (\<Sum>k \<leftarrow> [1..<m]. DaysInMonth y k) + DaysInMonth y m"
  by simp

lemma diasAntes_mono:
  "m \<le> m' \<Longrightarrow> (\<Sum>k \<leftarrow> [1..<m]. DaysInMonth y k) \<le> (\<Sum>k \<leftarrow> [1..<m']. DaysInMonth y k)"
proof (induction m' rule: dec_induct)
  case base
  then show ?case by simp
next
  case (step n)
  then show ?case by (cases "1 \<le> n") auto
qed

lemma diasAntes_13:
  "(\<Sum>k \<leftarrow> [1..<13]. DaysInMonth y k) = 365 + (if InLeapYear y then 1 else 0)"
proof -
  have "[1..<13] = [1,2,3,4,5,6,7,8,9,10,11,12::nat]"
    by (simp add: upt_rec)
  then show ?thesis by (simp add: DaysInMonth_def)
qed

lemma MakeDay_in_year:
  assumes "1 \<le> m" "m \<le> 12" "1 \<le> d" "d \<le> DaysInMonth y m"
  shows "DayFromYear y \<le> MakeDay y m d" "MakeDay y m d < DayFromYear (y + 1)"
proof -
  show "DayFromYear y \<le> MakeDay y m d"
    using assms by (simp add: MakeDay_def)
  have "(\<Sum>k \<leftarrow> [1..<m]. DaysInMonth y k) + d \<le> (\<Sum>k \<leftarrow> [1..<Suc m]. DaysInMonth y k)"
    using assms by simp
  also have "\<dots> \<le> (\<Sum>k \<leftarrow> [1..<13]. DaysInMonth y k)"
    using assms by (intro diasAntes_mono) simp
  finally have "(\<Sum>k \<leftarrow> [1..<m]. DaysInMonth y k) + d \<le> 365 + (if InLeapYear y then 1 else 0)"
    by (simp only: diasAntes_13)
  then show "MakeDay y m d < DayFromYear (y + 1)"
    by (simp add: MakeDay_def DayFromYear_Suc split: if_splits)
qed

lemma MakeDay_mono:
  assumes v: "1 \<le> m" "m \<le> 12" "1 \<le> d" "d \<le> DaysInMonth y m"
    and v': "1 \<le> m'" "m' \<le> 12" "1 \<le> d'" "d' \<le> DaysInMonth y' m'"
    and le: "y < y' \<or> y = y' \<and> (m < m' \<or> m = m' \<and> d \<le> d')"
  shows "MakeDay y m d \<le> MakeDay y' m' d'"
proof -
  consider "y < y'" | "y = y'" "m < m'" | "y = y'" "m = m'" "d \<le> d'"
    using le by blast
  then show ?thesis
  proof cases
    case 1
    then have "DayFromYear (y + 1) \<le> DayFromYear y'"
      by (intro DayFromYear_mono) simp
    with MakeDay_in_year(2) [OF v] MakeDay_in_year(1) [OF v'] show ?thesis
      by linarith
  next
    case 2
    have "(\<Sum>k \<leftarrow> [1..<m]. DaysInMonth y k) + d \<le> (\<Sum>k \<leftarrow> [1..<Suc m]. DaysInMonth y k)"
      using v by simp
    also have "\<dots> \<le> (\<Sum>k \<leftarrow> [1..<m']. DaysInMonth y k)"
      using 2 by (intro diasAntes_mono) simp
    finally show ?thesis
      using 2 v' by (simp add: MakeDay_def)
  next
    case 3
    then show ?thesis by (simp add: MakeDay_def)
  qed
qed


text \<open>The day number grows by one from each calendar day to the next: within a
  month, over the end of a month and over the end of a year.\<close>

lemma MakeDay_next:
  assumes "1 \<le> m" "m \<le> 12" "1 \<le> d" "d \<le> DaysInMonth y m"
  shows "MakeDay y m (d + 1) = MakeDay y m d + 1"
    and "d = DaysInMonth y m \<Longrightarrow> m < 12 \<Longrightarrow> MakeDay y (m + 1) 1 = MakeDay y m d + 1"
    and "d = DaysInMonth y m \<Longrightarrow> m = 12 \<Longrightarrow> MakeDay (y + 1) 1 1 = MakeDay y m d + 1"
proof -
  show "MakeDay y m (d + 1) = MakeDay y m d + 1"
    by (simp add: MakeDay_def)
  show "MakeDay y (m + 1) 1 = MakeDay y m d + 1" if "d = DaysInMonth y m" "m < 12"
    using that assms(1) by (simp add: MakeDay_def)
  show "MakeDay (y + 1) 1 1 = MakeDay y m d + 1" if "d = DaysInMonth y m" "m = 12"
  proof -
    have "(\<Sum>k \<leftarrow> [1..<13]. DaysInMonth y k) = (\<Sum>k \<leftarrow> [1..<12]. DaysInMonth y k) + DaysInMonth y 12"
      using diasAntes_Suc [of 12 y] by simp
    with diasAntes_13 [of y]
    have "int (\<Sum>k \<leftarrow> [1..<12]. DaysInMonth y k) + int (DaysInMonth y 12) =
        365 + (if InLeapYear y then 1 else 0)"
      by (simp split: if_splits)
    with that show ?thesis
      by (simp add: MakeDay_def DayFromYear_Suc split: if_splits)
  qed
qed

section \<open>Trip length\<close>

lemma split_fecha:
  assumes "length s = 10"
  shows "s = take 4 s @ (s ! 4) # take 2 (drop 5 s) @ (s ! 7) # drop 8 s"
proof -
  have "s = take 4 s @ drop 4 s" by simp
  also have "drop 4 s = (s ! 4) # drop 5 s"
    using assms by (simp add: Cons_nth_drop_Suc [symmetric])
  also have "drop 5 s = take 2 (drop 5 s) @ drop 2 (drop 5 s)"
    by (rule append_take_drop_id [symmetric])
  also have "drop 2 (drop 5 s) = drop 7 s" by simp
  also have "drop 7 s = (s ! 7) # drop 8 s"
    using assms by (simp add: Cons_nth_drop_Suc [symmetric])
  finally show ?thesis .
qed

lemma Date_parse_Some:
  assumes "Date_parse s = Some a"
  obtains Y M D where "s = Y @ CHR ''-'' # M @ CHR ''-'' # D"
    and "length Y = 4" and "length M = 2" and "length D = 2"
    and "list_all isDigit Y" and "list_all isDigit M" and "list_all isDigit D"
    and "1 \<le> digitsVal M" and "digitsVal M \<le> 12" and "1 \<le> digitsVal D"
    and "digitsVal D \<le> DaysInMonth (int (digitsVal Y)) (digitsVal M)"
    and "a = MakeDay (int (digitsVal Y)) (digitsVal M) (digitsVal D) * msPerDay"
proof -
  from assms have f: "length s = 10" "s ! 4 = CHR ''-''" "s ! 7 = CHR ''-''"
    "list_all isDigit (take 4 s)" "list_all isDigit (take 2 (drop 5 s))"
    "list_all isDigit (drop 8 s)"
    by (simp_all add: Date_parse_def split: if_splits)
  with assms have r: "1 \<le> digitsVal (take 2 (drop 5 s))" "digitsVal (take 2 (drop 5 s)) \<le> 12"
    "1 \<le> digitsVal (drop 8 s)"
    "digitsVal (drop 8 s) \<le> DaysInMonth (int (digitsVal (take 4 s))) (digitsVal (take 2 (drop 5 s)))"
    "a = MakeDay (int (digitsVal (take 4 s))) (digitsVal (take 2 (drop 5 s)))
           (digitsVal (drop 8 s)) * msPerDay"
    by (simp_all add: Date_parse_def Let_def split: if_splits)
  have "s = take 4 s @ CHR ''-'' # take 2 (drop 5 s) @ CHR ''-'' # drop 8 s"
    using split_fecha [OF f(1)] f(2,3) by simp
  moreover have "length (take 4 s) = 4" "length (take 2 (drop 5 s)) = 2" "length (drop 8 s) = 2"
    using f(1) by simp_all
  ultimately show ?thesis
    using that f(4-6) r by blast
qed

lemma fecha_le_iff:
  fixes Y M D Y' M' D' :: string
  assumes "length Y = length Y'" "length M = length M'"
  shows "(Y @ CHR ''-'' # M @ CHR ''-'' # D \<le> Y' @ CHR ''-'' # M' @ CHR ''-'' # D') \<longleftrightarrow>
     (Y < Y' \<or> Y = Y' \<and> (M < M' \<or> M = M' \<and> D \<le> D'))"
proof -
  have m: "(M @ CHR ''-'' # D < M' @ CHR ''-'' # D') \<longleftrightarrow> (M < M' \<or> M = M' \<and> D < D')"
    using assms(2) by (simp add: append_less_same_length)
  have lt: "(Y @ CHR ''-'' # M @ CHR ''-'' # D < Y' @ CHR ''-'' # M' @ CHR ''-'' # D') \<longleftrightarrow>
     (Y < Y' \<or> Y = Y' \<and> (M < M' \<or> M = M' \<and> D < D'))"
    using assms(1) m by (simp add: append_less_same_length)
  have eq: "(Y @ CHR ''-'' # M @ CHR ''-'' # D = Y' @ CHR ''-'' # M' @ CHR ''-'' # D') \<longleftrightarrow>
     (Y = Y' \<and> M = M' \<and> D = D')"
    using assms by simp
  show ?thesis
    unfolding le_less lt eq by blast
qed

lemma Date_parse_mono:
  assumes "Date_parse s = Some a" "Date_parse e = Some b" "s \<le> e"
  shows "\<exists>n::nat. b - a = int n * msPerDay"
proof -
  from assms(1) obtain Y M D where s: "s = Y @ CHR ''-'' # M @ CHR ''-'' # D"
    and l: "length Y = 4" "length M = 2" "length D = 2"
    and g: "list_all isDigit Y" "list_all isDigit M" "list_all isDigit D"
    and v: "1 \<le> digitsVal M" "digitsVal M \<le> 12" "1 \<le> digitsVal D"
      "digitsVal D \<le> DaysInMonth (int (digitsVal Y)) (digitsVal M)"
    and a: "a = MakeDay (int (digitsVal Y)) (digitsVal M) (digitsVal D) * msPerDay"
    by (rule Date_parse_Some)
  from assms(2) obtain Y' M' D' where e: "e = Y' @ CHR ''-'' # M' @ CHR ''-'' # D'"
    and l': "length Y' = 4" "length M' = 2" "length D' = 2"
    and g': "list_all isDigit Y'" "list_all isDigit M'" "list_all isDigit D'"
    and v': "1 \<le> digitsVal M'" "digitsVal M' \<le> 12" "1 \<le> digitsVal D'"
      "digitsVal D' \<le> DaysInMonth (int (digitsVal Y')) (digitsVal M')"
    and b: "b = MakeDay (int (digitsVal Y')) (digitsVal M') (digitsVal D') * msPerDay"
    by (rule Date_parse_Some)
  from assms(3) have "Y < Y' \<or> Y = Y' \<and> (M < M' \<or> M = M' \<and> D \<le> D')"
    unfolding s e using l l' by (simp add: fecha_le_iff)
  then have "digitsVal Y < digitsVal Y' \<or> digitsVal Y = digitsVal Y' \<and>
      (digitsVal M < digitsVal M' \<or> digitsVal M = digitsVal M' \<and> digitsVal D \<le> digitsVal D')"
    using l l' g g'
      digits_less_iff [of Y Y'] digits_eq_iff [of Y Y']
      digits_less_iff [of M M'] digits_eq_iff [of M M']
      digits_less_iff [of D D'] digits_eq_iff [of D D']
    by (auto simp: le_less)
  then have "int (digitsVal Y) < int (digitsVal Y') \<or> int (digitsVal Y) = int (digitsVal Y') \<and>
      (digitsVal M < digitsVal M' \<or> digitsVal M = digitsVal M' \<and> digitsVal D \<le> digitsVal D')"
    by simp
  with v v' have le: "MakeDay (int (digitsVal Y)) (digitsVal M) (digitsVal D)
      \<le> MakeDay (int (digitsVal Y')) (digitsVal M') (digitsVal D')"
    by (intro MakeDay_mono)
  define n where "n = nat (MakeDay (int (digitsVal Y')) (digitsVal M') (digitsVal D')
      - MakeDay (int (digitsVal Y)) (digitsVal M) (digitsVal D))"
  from le have "b - a = int n * msPerDay"
    by (simp add: a b n_def algebra_simps)
  then show ?thesis ..
qed

lemma calcularDias_exact:
  assumes "Date_parse s = Some a" "Date_parse e = Some b" "b - a = int n * msPerDay"
  shows "calcularDias s e = Finite (of_nat (n + 1))"
proof -
  have "\<lceil>(of_int (int n * msPerDay) :: rat) / of_int msPerDay\<rceil> = int n"
    by (simp add: msPerDay_def)
  with assms show ?thesis
    by (simp add: calcularDias_def)
qed

lemma fecha_samples:
  "Date_parse ''2026-03-01'' = Some (20513 * msPerDay)"
  "Date_parse ''2026-03-03'' = Some (20515 * msPerDay)"
  by (simp_all add: Date_parse_def isDigit_def digitsVal_def digitVal_def DaysInMonth_def
      InLeapYear_def MakeDay_def DayFromYear_def Let_def upt_rec)


text \<open>
  Claim C4. For two valid ISO dates with the end not before the start in the order of
  the strings, the two midnights are a whole number \<open>n\<close> of days apart, and
  \<open>calcularDias\<close> gives the ceiling of that difference in days plus one, floored at
  one, which is \<open>n + 1\<close>. From 2026-03-01 to the same day it is 1, and from 2026-03-01
  to 2026-03-03 it is 3.
\<close>

theorem calcularDias_dias:
  "(Date_parse s = Some a \<and> Date_parse e = Some b \<and> s \<le> e \<longrightarrow>
      (\<exists>n::nat. b - a = int n * msPerDay \<and>
         calcularDias s e =
           Finite (of_int (max 1 (\<lceil>(of_int (b - a) :: rat) / of_int msPerDay\<rceil> + 1))) \<and>
         calcularDias s e = Finite (of_nat (n + 1)))) \<and>
   calcularDias ''2026-03-01'' ''2026-03-01'' = Finite 1 \<and>
   calcularDias ''2026-03-01'' ''2026-03-03'' = Finite 3"
proof (intro conjI impI)
  assume h: "Date_parse s = Some a \<and> Date_parse e = Some b \<and> s \<le> e"
  then obtain n :: nat where n: "b - a = int n * msPerDay"
    using Date_parse_mono by blast
  from h have "calcularDias s e =
      Finite (of_int (max 1 (\<lceil>(of_int (b - a) :: rat) / of_int msPerDay\<rceil> + 1)))"
    by (simp add: calcularDias_def)
  moreover from h n have "calcularDias s e = Finite (of_nat (n + 1))"
    by (intro calcularDias_exact) simp_all
  ultimately show "\<exists>n::nat. b - a = int n * msPerDay \<and>
         calcularDias s e =
           Finite (of_int (max 1 (\<lceil>(of_int (b - a) :: rat) / of_int msPerDay\<rceil> + 1))) \<and>
         calcularDias s e = Finite (of_nat (n + 1))"
    using n by blast
next
  have "20513 * msPerDay - 20513 * msPerDay = int 0 * msPerDay" by simp
  from calcularDias_exact [OF fecha_samples(1) fecha_samples(1) this]
  show "calcularDias ''2026-03-01'' ''2026-03-01'' = Finite 1" by simp
next
  have "20515 * msPerDay - 20513 * msPerDay = int 2 * msPerDay" by simp
  from calcularDias_exact [OF fecha_samples(1) fecha_samples(2) this]
  show "calcularDias ''2026-03-01'' ''2026-03-03'' = Finite 3" by simp
qed

text \<open>The theorem from 2026-03-01 to 2026-03-03: both dates parse, the strings are in
  order, and the length is 3.\<close>

theorem calcularDias_dias_witness:
  "Date_parse ''2026-03-01'' = Some (20513 * msPerDay) \<and>
   Date_parse ''2026-03-03'' = Some (20515 * msPerDay) \<and>
   ''2026-03-01'' \<le> ''2026-03-03'' \<and>
   calcularDias ''2026-03-01'' ''2026-03-03'' = Finite 3"
proof -
  have o: "''2026-03-01'' \<le> ''2026-03-03''" by simp
  from calcularDias_dias [of "''2026-03-01''" "20513 * msPerDay" "''2026-03-03''" "20515 * msPerDay"]
    fecha_samples o
  obtain n :: nat where "20515 * msPerDay - 20513 * msPerDay = int n * msPerDay"
    and r: "calcularDias ''2026-03-01'' ''2026-03-03'' = Finite (of_nat (n + 1))"
    by blast
  then have "n = 2" by (simp add: msPerDay_def)
  with r have "calcularDias ''2026-03-01'' ''2026-03-03'' = Finite 3" by simp
  with fecha_samples o show ?thesis by blast
qed

section \<open>Search history\<close>

lemma remdups_snoc: "remdups (xs @ [y]) = filter (\<lambda>z. z \<noteq> y) (remdups xs) @ [y]"
  by (induction xs) auto

lemma take_filter_distinct:
  "distinct L \<Longrightarrow>
   take n (filter (\<lambda>z. z \<noteq> y) (take (Suc n) L)) = take n (filter (\<lambda>z. z \<noteq> y) L)"
proof (induction L arbitrary: n)
  case Nil
  then show ?case by simp
next
  case (Cons x xs)
  show ?case
  proof (cases "x = y")
    case True
    with Cons.prems have "y \<notin> set xs" by simp
    then have "filter (\<lambda>z. z \<noteq> y) xs = xs" "filter (\<lambda>z. z \<noteq> y) (take n xs) = take n xs"
      by (auto simp: filter_id_conv dest: in_set_takeD)
    with True show ?thesis by simp
  next
    case False
    show ?thesis
    proof (cases n)
      case 0
      then show ?thesis by simp
    next
      case (Suc k)
      with Cons.IH [of k] Cons.prems False show ?thesis by simp
    qed
  qed
qed

lemma saveSearchToHistory_queries:
  "map query (saveSearchToHistory q now h) =
     take MAX_ITEMS (toLowerCase (trim q) # filter (\<lambda>z. z \<noteq> toLowerCase (trim q)) (map query h))"
  unfolding saveSearchToHistory_def Let_def take_map [symmetric]
  by (simp add: filter_map comp_def)

lemma historial_snoc:
  "historial (saves @ [(q, now)]) = saveSearchToHistory q now (historial saves)"
  by (simp add: historial_def)

lemma historial_queries:
  "map query (historial saves) =
     take MAX_ITEMS (rev (remdups (map (\<lambda>(q, now). toLowerCase (trim q)) saves)))"
proof (induction saves rule: rev_induct)
  case Nil
  then show ?case by (simp add: historial_def)
next
  case (snoc x saves)
  obtain q now where x: "x = (q, now)" by (cases x)
  let ?nq = "toLowerCase (trim q)"
  let ?Q = "rev (remdups (map (\<lambda>(q, now). toLowerCase (trim q)) saves))"
  have d: "distinct ?Q" by simp
  have "map query (historial (saves @ [x])) =
      take MAX_ITEMS (?nq # filter (\<lambda>z. z \<noteq> ?nq) (take MAX_ITEMS ?Q))"
    unfolding x historial_snoc saveSearchToHistory_queries snoc.IH ..
  also have "\<dots> = ?nq # take 9 (filter (\<lambda>z. z \<noteq> ?nq) (take (Suc 9) ?Q))"
    by (simp add: MAX_ITEMS_def)
  also have "\<dots> = ?nq # take 9 (filter (\<lambda>z. z \<noteq> ?nq) ?Q)"
    using take_filter_distinct [OF d, of 9 ?nq] by simp
  also have "\<dots> = take MAX_ITEMS (?nq # filter (\<lambda>z. z \<noteq> ?nq) ?Q)"
    by (simp add: MAX_ITEMS_def)
  also have "?nq # filter (\<lambda>z. z \<noteq> ?nq) ?Q =
      rev (remdups (map (\<lambda>(q, now). toLowerCase (trim q)) (saves @ [x])))"
    by (simp add: x remdups_snoc rev_filter)
  finally show ?case .
qed

text \<open>
  Claim C8. After a save, whatever array was stored before, the history has at most
  10 entries and its first entry is the normalised query with the time of the save.
  On a storage that only this function has written (\<open>historial\<close> of the earlier
  saves), no two entries have the same query, the entries behind the first are the
  earlier history without the saved query, in their order and cut to nine, and the
  queries read from the front are the ten most recently saved distinct queries, the
  most recent first.
\<close>

theorem saveSearchToHistory_invariantes:
  "length (saveSearchToHistory q now anterior) \<le> 10 \<and>
   saveSearchToHistory q now anterior \<noteq> [] \<and>
   hd (saveSearchToHistory q now anterior) = \<lparr>query = toLowerCase (trim q), timestamp = now\<rparr> \<and>
   tl (saveSearchToHistory q now anterior) =
     take 9 (filter (\<lambda>item. query item \<noteq> toLowerCase (trim q)) anterior) \<and>
   distinct (map query (saveSearchToHistory q now (historial saves))) \<and>
   map query (saveSearchToHistory q now (historial saves)) =
     take 10 (rev (remdups (map (\<lambda>(q, now). toLowerCase (trim q)) (saves @ [(q, now)]))))"
proof -
  have a: "length (saveSearchToHistory q now anterior) \<le> 10"
    by (simp add: saveSearchToHistory_def Let_def MAX_ITEMS_def)
  have b: "saveSearchToHistory q now anterior \<noteq> []"
    "hd (saveSearchToHistory q now anterior) = \<lparr>query = toLowerCase (trim q), timestamp = now\<rparr>"
    "tl (saveSearchToHistory q now anterior) =
       take 9 (filter (\<lambda>item. query item \<noteq> toLowerCase (trim q)) anterior)"
    by (simp_all add: saveSearchToHistory_def Let_def MAX_ITEMS_def)
  have c: "map query (saveSearchToHistory q now (historial saves)) =
     take 10 (rev (remdups (map (\<lambda>(q, now). toLowerCase (trim q)) (saves @ [(q, now)]))))"
    using historial_queries [of "saves @ [(q, now)]"]
    by (simp only: historial_snoc MAX_ITEMS_def)
  have "distinct (take 10 (rev (remdups (map (\<lambda>(q, now). toLowerCase (trim q)) (saves @ [(q, now)])))))"
    by (intro distinct_take) simp
  with c have d: "distinct (map query (saveSearchToHistory q now (historial saves)))"
    by simp
  from a b c d show ?thesis by blast
qed

section \<open>Loading the collection\<close>

lemma getStorage_cases:
  "getStorage JSON_parse ls key defaultValue =
     Inr (case ls of
            Denied \<Rightarrow> defaultValue
          | Items m \<Rightarrow>
              (case m key of
                 None \<Rightarrow> defaultValue
               | Some s \<Rightarrow>
                   if s = [] then defaultValue
                   else (case JSON_parse s of Inl e \<Rightarrow> defaultValue | Inr v \<Rightarrow> v)))"
  by (simp add: getStorage_def getStorage_try_def getItem_def
      split: localStorage.splits option.splits sum.splits)

text \<open>
  Claim C9. \<open>cargarItinerarios\<close> always returns a state and never an exception, and it
  changes only the collection. When the key holds a non-empty text that \<open>JSON.parse\<close>
  accepts, the collection is the parsed one. When the key is absent, when the text is
  rejected by \<open>JSON.parse\<close>, and when the storage cannot be read at all, the collection
  is the empty sequence.
\<close>

theorem cargarItinerarios_absorbe:
  "(\<exists>c. cargarItinerarios JSON_parse ls st = Inr (st\<lparr>itinerarios := c\<rparr>)) \<and>
   (\<forall>m s c. ls = Items m \<and> m STORAGE_KEY = Some s \<and> s \<noteq> [] \<and> JSON_parse s = Inr c \<longrightarrow>
      cargarItinerarios JSON_parse ls st = Inr (st\<lparr>itinerarios := c\<rparr>)) \<and>
   (\<forall>m. ls = Items m \<and> m STORAGE_KEY = None \<longrightarrow>
      cargarItinerarios JSON_parse ls st = Inr (st\<lparr>itinerarios := []\<rparr>)) \<and>
   (\<forall>m s e. ls = Items m \<and> m STORAGE_KEY = Some s \<and> JSON_parse s = Inl e \<longrightarrow>
      cargarItinerarios JSON_parse ls st = Inr (st\<lparr>itinerarios := []\<rparr>)) \<and>
   (ls = Denied \<longrightarrow> cargarItinerarios JSON_parse ls st = Inr (st\<lparr>itinerarios := []\<rparr>))"
proof (intro conjI allI impI)
  show "\<exists>c. cargarItinerarios JSON_parse ls st = Inr (st\<lparr>itinerarios := c\<rparr>)"
    unfolding cargarItinerarios_def getStorage_cases by (simp only: sum.case) blast
next
  fix m s c
  assume "ls = Items m \<and> m STORAGE_KEY = Some s \<and> s \<noteq> [] \<and> JSON_parse s = Inr c"
  then show "cargarItinerarios JSON_parse ls st = Inr (st\<lparr>itinerarios := c\<rparr>)"
    by (simp add: cargarItinerarios_def getStorage_cases)
next
  fix m
  assume "ls = Items m \<and> m STORAGE_KEY = None"
  then show "cargarItinerarios JSON_parse ls st = Inr (st\<lparr>itinerarios := []\<rparr>)"
    by (simp add: cargarItinerarios_def getStorage_cases)
next
  fix m s e
  assume "ls = Items m \<and> m STORAGE_KEY = Some s \<and> JSON_parse s = Inl e"
  then show "cargarItinerarios JSON_parse ls st = Inr (st\<lparr>itinerarios := []\<rparr>)"
    by (simp add: cargarItinerarios_def getStorage_cases)
next
  assume "ls = Denied"
  then show "cargarItinerarios JSON_parse ls st = Inr (st\<lparr>itinerarios := []\<rparr>)"
    by (simp add: cargarItinerarios_def getStorage_cases)
qed

text \<open>The theorem on four storages: one holding the serialised sample collection, an
  empty one, one holding text that does not parse, and one that denies access.\<close>

theorem cargarItinerarios_absorbe_witness:
  "cargarItinerarios ej_parse (Items [STORAGE_KEY \<mapsto> ''[tokio,paris]'']) estadoInicial =
     Inr (estadoInicial\<lparr>itinerarios := [ej_tokio, ej_paris]\<rparr>) \<and>
   cargarItinerarios ej_parse (Items Map.empty) ej_state = Inr (ej_state\<lparr>itinerarios := []\<rparr>) \<and>
   cargarItinerarios ej_parse (Items [STORAGE_KEY \<mapsto> ''{roto'']) ej_state =
     Inr (ej_state\<lparr>itinerarios := []\<rparr>) \<and>
   cargarItinerarios ej_parse Denied ej_state = Inr (ej_state\<lparr>itinerarios := []\<rparr>)"
proof -
  have p: "ej_parse ''[tokio,paris]'' = Inr [ej_tokio, ej_paris]" "ej_parse ''{roto'' = Inl SyntaxError"
    by (simp_all add: ej_parse_def)
  have a: "cargarItinerarios ej_parse (Items [STORAGE_KEY \<mapsto> ''[tokio,paris]'']) estadoInicial =
     Inr (estadoInicial\<lparr>itinerarios := [ej_tokio, ej_paris]\<rparr>)"
    using cargarItinerarios_absorbe [of ej_parse "Items [STORAGE_KEY \<mapsto> ''[tokio,paris]'']" estadoInicial]
      p(1) by simp
  have b: "cargarItinerarios ej_parse (Items Map.empty) ej_state = Inr (ej_state\<lparr>itinerarios := []\<rparr>)"
    using cargarItinerarios_absorbe [of ej_parse "Items Map.empty" ej_state] by simp
  have c: "cargarItinerarios ej_parse (Items [STORAGE_KEY \<mapsto> ''{roto'']) ej_state =
     Inr (ej_state\<lparr>itinerarios := []\<rparr>)"
    using cargarItinerarios_absorbe [of ej_parse "Items [STORAGE_KEY \<mapsto> ''{roto'']" ej_state]
      p(2) by simp
  have d: "cargarItinerarios ej_parse Denied ej_state = Inr (ej_state\<lparr>itinerarios := []\<rparr>)"
    using cargarItinerarios_absorbe [of ej_parse Denied ej_state] by simp
  from a b c d show ?thesis by blast
qed

section \<open>Hexadecimal ids\<close>

lemma of_char_hexDigit:
  "d < 16 \<Longrightarrow> (of_char (hexDigit d) :: nat) = (if d < 10 then 48 + d else 87 + d)"
  by (simp add: hexDigit_def)

lemma hexDigit_inj: "d < 16 \<Longrightarrow> d' < 16 \<Longrightarrow> hexDigit d = hexDigit d' \<Longrightarrow> d = d'"
proof -
  assume a: "d < 16" "d' < 16" "hexDigit d = hexDigit d'"
  then have "(of_char (hexDigit d) :: nat) = of_char (hexDigit d')" by simp
  with a(1,2) show ?thesis
    by (simp add: of_char_hexDigit split: if_splits)
qed

lemma hexNat_small: "n < 16 \<Longrightarrow> hexNat n = [hexDigit n]"
  by (simp add: hexNat.simps)

lemma hexNat_big: "\<not> n < 16 \<Longrightarrow> hexNat n = hexNat (n div 16) @ [hexDigit (n mod 16)]"
  by (subst hexNat.simps) simp

lemma hexNat_not_Nil: "hexNat n \<noteq> []"
  by (cases "n < 16") (simp_all add: hexNat_small hexNat_big)

lemma hexNat_inj: "hexNat n = hexNat m \<Longrightarrow> n = m"
proof (induction n arbitrary: m rule: hexNat.induct)
  case (1 n)
  show ?case
  proof (cases "n < 16")
    case True
    have e: "hexNat m = [hexDigit n]"
      using "1.prems" hexNat_small [OF True] by simp
    have m: "m < 16"
    proof (rule ccontr)
      assume "\<not> m < 16"
      from hexNat_big [OF this] e have "hexNat (m div 16) = []" by simp
      with hexNat_not_Nil show False by blast
    qed
    from e hexNat_small [OF m] have "hexDigit m = hexDigit n" by simp
    from hexDigit_inj [OF m True this] show ?thesis by simp
  next
    case False
    have e: "hexNat m = hexNat (n div 16) @ [hexDigit (n mod 16)]"
      using "1.prems" hexNat_big [OF False] by simp
    have m: "\<not> m < 16"
    proof
      assume "m < 16"
      from hexNat_small [OF this] e have "hexNat (n div 16) = []" by simp
      with hexNat_not_Nil show False by blast
    qed
    from e hexNat_big [OF m]
    have "hexNat (m div 16) @ [hexDigit (m mod 16)] = hexNat (n div 16) @ [hexDigit (n mod 16)]"
      by simp
    then have h: "hexNat (n div 16) = hexNat (m div 16)" "hexDigit (n mod 16) = hexDigit (m mod 16)"
      by simp_all
    from "1.IH" [OF False h(1)] have d: "n div 16 = m div 16" .
    have "n mod 16 < 16" "m mod 16 < 16" by simp_all
    from hexDigit_inj [OF this h(2)] have r: "n mod 16 = m mod 16" .
    have "n = 16 * (n div 16) + n mod 16" by simp
    also have "\<dots> = 16 * (m div 16) + m mod 16" by (simp only: d r)
    also have "\<dots> = m" by simp
    finally show ?thesis .
  qed
qed

lemma hexNat_chars: "c \<in> set (hexNat n) \<Longrightarrow> 48 \<le> (of_char c :: nat)"
proof (induction n rule: hexNat.induct)
  case (1 n)
  show ?case
  proof (cases "n < 16")
    case True
    from "1.prems" hexNat_small [OF True] have "c = hexDigit n" by simp
    with True show ?thesis by (simp add: of_char_hexDigit)
  next
    case False
    from "1.prems" hexNat_big [OF False]
    have "c \<in> set (hexNat (n div 16)) \<or> c = hexDigit (n mod 16)"
      by auto
    then show ?thesis
    proof
      assume "c \<in> set (hexNat (n div 16))"
      then show ?thesis by (rule "1.IH" [OF False])
    next
      assume "c = hexDigit (n mod 16)"
      moreover have "n mod 16 < 16" by simp
      ultimately show ?thesis by (simp add: of_char_hexDigit)
    qed
  qed
qed

lemma hexNat_no_minus: "hexNat n \<noteq> CHR ''-'' # s"
proof
  assume "hexNat n = CHR ''-'' # s"
  then have "CHR ''-'' \<in> set (hexNat n)" by simp
  from hexNat_chars [OF this] show False by simp
qed

lemma toString16_inj: "toString16 a = toString16 b \<longleftrightarrow> a = b"
proof
  assume e: "toString16 a = toString16 b"
  show "a = b"
  proof (cases "a < 0")
    case True
    note a = True
    show ?thesis
    proof (cases "b < 0")
      case True
      with a e have "hexNat (nat (- a)) = hexNat (nat (- b))" by (simp add: toString16_def)
      then have "nat (- a) = nat (- b)" by (rule hexNat_inj)
      with a True show ?thesis by simp
    next
      case False
      with a e have "hexNat (nat b) = CHR ''-'' # hexNat (nat (- a))" by (simp add: toString16_def)
      with hexNat_no_minus show ?thesis by blast
    qed
  next
    case False
    note a = False
    show ?thesis
    proof (cases "b < 0")
      case True
      with a e have "hexNat (nat a) = CHR ''-'' # hexNat (nat (- b))" by (simp add: toString16_def)
      with hexNat_no_minus show ?thesis by blast
    next
      case False
      with a e have "hexNat (nat a) = hexNat (nat b)" by (simp add: toString16_def)
      then have "nat a = nat b" by (rule hexNat_inj)
      with a False show ?thesis by simp
    qed
  qed
next
  assume "a = b"
  then show "toString16 a = toString16 b" by simp
qed

section \<open>Steps of the page\<close>

lemma step_cases:
  "itinerarios (step st ev) = itinerarios st \<or>
   (\<exists>t iso d. ev = Guardar t iso d \<and> fst (validarForm d) \<and>
      itinerarios (step st ev) =
        ([''id'' \<mapsto> JStr (''it_'' @ toString16 t)] ++ datosForm d ++ [''creadoEn'' \<mapsto> JStr iso])
        # itinerarios st) \<or>
   (\<exists>t iso d i. ev = Guardar t iso d \<and> fst (validarForm d) \<and> i < length (itinerarios st) \<and>
      itinerarios (step st ev) =
        (itinerarios st)[i := (itinerarios st ! i) ++ datosForm d ++ [''actualizadoEn'' \<mapsto> JStr iso]]) \<or>
   (\<exists>x. itinerarios (step st ev) = filter (\<lambda>it. \<not> has_id x it) (itinerarios st))"
proof (cases ev)
  case (Guardar t iso d)
  show ?thesis
  proof (cases "fst (validarForm d)")
    case False
    then show ?thesis by (simp add: Guardar handleGuardar_invalido)
  next
    case True
    show ?thesis
    proof (cases "truthy_id (editandoId st)")
      case False
      with True have "itinerarios (step st ev) =
        ([''id'' \<mapsto> JStr (''it_'' @ toString16 t)] ++ datosForm d ++ [''creadoEn'' \<mapsto> JStr iso])
        # itinerarios st"
        by (simp add: Guardar handleGuardar_crear crearItinerario_def Let_def)
      with True Guardar show ?thesis by blast
    next
      case e: True
      show ?thesis
      proof (cases "findIndex (has_id (the (editandoId st))) (itinerarios st)")
        case None
        with True e have "itinerarios (step st ev) = itinerarios st"
          by (simp add: Guardar handleGuardar_editar editarItinerario_def)
        then show ?thesis by blast
      next
        case (Some i)
        then have "i < length (itinerarios st)" by (simp add: findIndex_Some_iff)
        moreover from True e Some have "itinerarios (step st ev) =
          (itinerarios st)[i := (itinerarios st ! i) ++ datosForm d ++ [''actualizadoEn'' \<mapsto> JStr iso]]"
          by (simp add: Guardar handleGuardar_editar editarItinerario_def)
        ultimately show ?thesis using True Guardar by blast
      qed
    qed
  qed
next
  case Eliminar
  show ?thesis
  proof (cases "truthy_id (eliminandoId st)")
    case True
    then have "itinerarios (step st ev) =
      filter (\<lambda>it. \<not> has_id (the (eliminandoId st)) it) (itinerarios st)"
      by (simp add: Eliminar handleEliminar_def eliminarItinerario_def)
    then show ?thesis by blast
  next
    case False
    then show ?thesis by (simp add: Eliminar handleEliminar_def)
  qed
qed (simp_all add: abrirFormNuevo_def abrirFormEditar_def abrirConfirmEliminar_def)

lemma ejecutar_snoc: "ejecutar (evs @ [ev]) = step (ejecutar evs) ev"
  by (simp add: ejecutar_def)

lemma fechas_ok_datos:
  assumes "fst (validarForm d)" "k \<noteq> ''fechaInicio''" "k \<noteq> ''fechaFin''"
  shows "fechas_ok (m ++ datosForm d ++ [k \<mapsto> v])"
proof -
  from assms(1) have "input_fecha_inicio d \<le> input_fecha_fin d"
    by (auto simp: validarForm_eq not_less)
  moreover have "(m ++ datosForm d ++ [k \<mapsto> v]) ''fechaInicio'' = Some (JStr (input_fecha_inicio d))"
    "(m ++ datosForm d ++ [k \<mapsto> v]) ''fechaFin'' = Some (JStr (input_fecha_fin d))"
    using assms(2,3) by (simp_all add: datosForm_def map_add_def)
  ultimately show ?thesis by (simp add: fechas_ok_def)
qed

lemma list_all_update: "list_all P xs \<Longrightarrow> P y \<Longrightarrow> list_all P (xs[i := y])"
  using set_update_subset_insert [of xs i y] by (auto simp: list_all_iff)

lemma step_fechas_ok:
  assumes "list_all fechas_ok (itinerarios st)"
  shows "list_all fechas_ok (itinerarios (step st ev))"
proof -
  from step_cases [of st ev]
  consider "itinerarios (step st ev) = itinerarios st"
    | t iso d where "fst (validarForm d)" "itinerarios (step st ev) =
        ([''id'' \<mapsto> JStr (''it_'' @ toString16 t)] ++ datosForm d ++ [''creadoEn'' \<mapsto> JStr iso])
        # itinerarios st"
    | iso d i where "fst (validarForm d)" "itinerarios (step st ev) =
        (itinerarios st)[i := (itinerarios st ! i) ++ datosForm d ++ [''actualizadoEn'' \<mapsto> JStr iso]]"
    | x where "itinerarios (step st ev) = filter (\<lambda>it. \<not> has_id x it) (itinerarios st)"
    by blast
  then show ?thesis
  proof cases
    case 1
    with assms show ?thesis by simp
  next
    case 2
    from fechas_ok_datos [OF 2(1), of "''creadoEn''"] assms show ?thesis
      unfolding 2(2) by simp
  next
    case 3
    from fechas_ok_datos [OF 3(1), of "''actualizadoEn''"] assms show ?thesis
      unfolding 3(2) by (intro list_all_update) simp_all
  next
    case 4
    with assms show ?thesis by (simp add: list_all_iff)
  qed
qed

lemma foldl_step_fechas_ok:
  "list_all fechas_ok (itinerarios st) \<Longrightarrow> list_all fechas_ok (itinerarios (foldl step st evs))"
  by (induction evs arbitrary: st) (simp_all add: step_fechas_ok)


section \<open>Dates in order\<close>

text \<open>
  Claim C5. Every save goes through \<open>validarForm\<close>, so the record that
  \<open>crearItinerario\<close> or \<open>editarItinerario\<close> stores has its dates in order, and
  deleting only removes records. Hence after any sequence of actions on the page,
  starting from the empty collection or from any collection whose records have their
  dates in order, every record of the collection has its end date not before its start
  date.
\<close>

theorem fechas_en_orden:
  "list_all fechas_ok (itinerarios (ejecutar evs)) \<and>
   (list_all fechas_ok (itinerarios st) \<longrightarrow>
      list_all fechas_ok (itinerarios (foldl step st evs)))"
proof
  have "list_all fechas_ok (itinerarios estadoInicial)"
    by (simp add: estadoInicial_def)
  then show "list_all fechas_ok (itinerarios (ejecutar evs))"
    unfolding ejecutar_def by (rule foldl_step_fechas_ok)
next
  show "list_all fechas_ok (itinerarios st) \<longrightarrow>
      list_all fechas_ok (itinerarios (foldl step st evs))"
    by (simp add: foldl_step_fechas_ok)
qed

text \<open>The theorem on the sample collection: the Tokyo trip is opened for editing and
  saved from the sample form, a form with the dates swapped is rejected, and the Paris
  trip is deleted.\<close>

theorem fechas_en_orden_witness:
  "list_all fechas_ok (itinerarios ej_state) \<and>
   list_all fechas_ok (itinerarios (foldl step ej_state
     [AbrirFormEditar ''it_19c0a1b2c3d'',
      Guardar 1772000000000 ''2026-02-25T06:13:20.000Z'' ej_form,
      Guardar 1772000000001 ''2026-02-25T06:13:20.001Z'' ej_invalido,
      AbrirConfirmEliminar ''it_19c0a1b2c3e'', Eliminar]))"
proof -
  have h: "list_all fechas_ok (itinerarios ej_state)"
    by (simp add: ej_state_def ej_tokio_def ej_paris_def fechas_ok_def)
  with fechas_en_orden [of _ ej_state] show ?thesis by blast
qed


section \<open>Distinct ids\<close>

lemma relojes_append: "relojes (evs @ evs') = relojes evs @ relojes evs'"
  by (induction evs rule: relojes.induct) simp_all

lemma id_datos: "k \<noteq> ''id'' \<Longrightarrow> (m ++ datosForm d ++ [k \<mapsto> v]) ''id'' = m ''id''"
  by (simp add: datosForm_def map_add_def)

lemma ids_update:
  assumes "i < length xs" "y ''id'' = (xs ! i) ''id''"
  shows "map (\<lambda>it. it ''id'') (xs[i := y]) = map (\<lambda>it. it ''id'') xs"
  using assms by (simp add: map_update list_update_same_conv)

lemma step_ids:
  assumes d: "distinct (ids st)"
    and o: "\<forall>it \<in> set (itinerarios st). \<exists>t \<in> T. it ''id'' = Some (JStr (''it_'' @ toString16 t))"
    and n: "\<forall>t \<in> T. \<forall>t' \<in> set (relojes [ev]). t < t'"
  shows "distinct (ids (step st ev)) \<and>
    (\<forall>it \<in> set (itinerarios (step st ev)).
       \<exists>t \<in> T \<union> set (relojes [ev]). it ''id'' = Some (JStr (''it_'' @ toString16 t)))"
proof -
  from step_cases [of st ev]
  consider "itinerarios (step st ev) = itinerarios st"
    | t iso d where "ev = Guardar t iso d" "itinerarios (step st ev) =
        ([''id'' \<mapsto> JStr (''it_'' @ toString16 t)] ++ datosForm d ++ [''creadoEn'' \<mapsto> JStr iso])
        # itinerarios st"
    | iso d i where "i < length (itinerarios st)" "itinerarios (step st ev) =
        (itinerarios st)[i := (itinerarios st ! i) ++ datosForm d ++ [''actualizadoEn'' \<mapsto> JStr iso]]"
    | x where "itinerarios (step st ev) = filter (\<lambda>it. \<not> has_id x it) (itinerarios st)"
    by blast
  then show ?thesis
  proof cases
    case 1
    with d o show ?thesis by (auto simp: ids_def)
  next
    case 2
    let ?nuevo = "[''id'' \<mapsto> JStr (''it_'' @ toString16 t)] ++ datosForm d ++ [''creadoEn'' \<mapsto> JStr iso]"
    have nid: "?nuevo ''id'' = Some (JStr (''it_'' @ toString16 t))"
      using id_datos [of "''creadoEn''" "[''id'' \<mapsto> JStr (''it_'' @ toString16 t)]" d "JStr iso"]
      by simp
    have fresh: "?nuevo ''id'' \<notin> set (ids st)"
    proof
      assume "?nuevo ''id'' \<in> set (ids st)"
      then obtain it where it: "it \<in> set (itinerarios st)" "it ''id'' = ?nuevo ''id''"
        by (auto simp: ids_def)
      with o obtain t' where t': "t' \<in> T" "it ''id'' = Some (JStr (''it_'' @ toString16 t'))"
        by blast
      with it(2) nid have "toString16 t' = toString16 t" by simp
      then have "t' = t" by (simp add: toString16_inj)
      with n t'(1) 2(1) show False by auto
    qed
    with d have "distinct (ids (step st ev))"
      by (simp add: ids_def 2(2))
    moreover have "\<forall>it \<in> set (itinerarios (step st ev)).
       \<exists>t \<in> T \<union> set (relojes [ev]). it ''id'' = Some (JStr (''it_'' @ toString16 t))"
      unfolding 2(2) using o nid 2(1) by auto
    ultimately show ?thesis by blast
  next
    case 3
    let ?y = "(itinerarios st ! i) ++ datosForm d ++ [''actualizadoEn'' \<mapsto> JStr iso]"
    have yid: "?y ''id'' = (itinerarios st ! i) ''id''"
      using id_datos [of "''actualizadoEn''" "itinerarios st ! i" d "JStr iso"] by simp
    from ids_update [of i "itinerarios st" ?y, OF 3(1) yid] have "ids (step st ev) = ids st"
      by (simp add: ids_def 3(2))
    with d have "distinct (ids (step st ev))" by simp
    moreover have "\<exists>t \<in> T \<union> set (relojes [ev]). it ''id'' = Some (JStr (''it_'' @ toString16 t))"
      if "it \<in> set (itinerarios (step st ev))" for it
    proof -
      from that set_update_subset_insert [of "itinerarios st" i ?y]
      have "it = ?y \<or> it \<in> set (itinerarios st)" unfolding 3(2) by blast
      then show ?thesis
      proof
        assume "it = ?y"
        with yid have "it ''id'' = (itinerarios st ! i) ''id''" by simp
        moreover from 3(1) have "itinerarios st ! i \<in> set (itinerarios st)" by simp
        ultimately show ?thesis using o by fastforce
      next
        assume "it \<in> set (itinerarios st)"
        with o show ?thesis by blast
      qed
    qed
    ultimately show ?thesis by blast
  next
    case 4
    from d have "distinct (ids (step st ev))"
      unfolding ids_def 4 by (rule distinct_map_filter)
    moreover have "\<forall>it \<in> set (itinerarios (step st ev)).
       \<exists>t \<in> T \<union> set (relojes [ev]). it ''id'' = Some (JStr (''it_'' @ toString16 t))"
      unfolding 4 using o by auto
    ultimately show ?thesis by blast
  qed
qed

lemma ejecutar_ids:
  "sorted_wrt (<) (relojes evs) \<Longrightarrow>
   distinct (ids (ejecutar evs)) \<and>
   (\<forall>it \<in> set (itinerarios (ejecutar evs)).
      \<exists>t \<in> set (relojes evs). it ''id'' = Some (JStr (''it_'' @ toString16 t)))"
proof (induction evs rule: rev_induct)
  case Nil
  then show ?case by (simp add: ejecutar_def estadoInicial_def ids_def)
next
  case (snoc ev evs)
  from snoc.prems have s: "sorted_wrt (<) (relojes evs)"
    and n: "\<forall>t \<in> set (relojes evs). \<forall>t' \<in> set (relojes [ev]). t < t'"
    by (simp_all add: relojes_append sorted_wrt_append)
  from snoc.IH [OF s] have d: "distinct (ids (ejecutar evs))"
    and o: "\<forall>it \<in> set (itinerarios (ejecutar evs)).
      \<exists>t \<in> set (relojes evs). it ''id'' = Some (JStr (''it_'' @ toString16 t))"
    by blast+
  from step_ids [OF d o n] show ?case
    by (simp add: ejecutar_snoc relojes_append)
qed


lemma ej_form_valido: "fst (validarForm ej_form)"
  by (simp add: validarForm_eq ej_form_def trim_def isWhiteSpace_def)

lemma hexDigit_vals:
  "hexDigit 0 = CHR ''0''" "hexDigit 1 = CHR ''1''" "hexDigit 2 = CHR ''2''"
  "hexDigit 3 = CHR ''3''" "hexDigit 4 = CHR ''4''" "hexDigit 5 = CHR ''5''"
  "hexDigit 6 = CHR ''6''" "hexDigit 7 = CHR ''7''" "hexDigit 8 = CHR ''8''"
  "hexDigit 9 = CHR ''9''" "hexDigit 10 = CHR ''a''" "hexDigit 11 = CHR ''b''"
  "hexDigit 12 = CHR ''c''" "hexDigit 13 = CHR ''d''" "hexDigit 14 = CHR ''e''"
  "hexDigit 15 = CHR ''f''"
  by code_simp+

lemma hex_uno: "hexNat (Suc 0) = ''1''" "hexDigit (Suc 0) = CHR ''1''"
  using hexNat_small [of 1] hexDigit_vals(2) by simp_all

lemma hex_samples:
  "toString16 1772000000000 = ''19c936e3800''" "toString16 1772000000001 = ''19c936e3801''"
  by (simp_all add: toString16_def hexNat.simps [of "numeral n" for n] hex_uno
      hexDigit_vals)

lemma crear_dos:
  "ids (ejecutar [Guardar t ts ej_form, AbrirFormNuevo, Guardar t' ts' ej_form]) =
     [Some (JStr (''it_'' @ toString16 t')), Some (JStr (''it_'' @ toString16 t))]"
proof -
  let ?n1 = "[''id'' \<mapsto> JStr (''it_'' @ toString16 t)] ++ datosForm ej_form ++ [''creadoEn'' \<mapsto> JStr ts]"
  let ?n2 = "[''id'' \<mapsto> JStr (''it_'' @ toString16 t')] ++ datosForm ej_form ++ [''creadoEn'' \<mapsto> JStr ts']"
  let ?s1 = "estadoInicial\<lparr>itinerarios := [?n1]\<rparr>"
  have e0: "\<not> truthy_id (editandoId estadoInicial)"
    by (simp add: estadoInicial_def truthy_id_def)
  have 1: "step estadoInicial (Guardar t ts ej_form) = ?s1"
    using handleGuardar_crear [OF ej_form_valido e0, of t ts]
    by (simp add: crearItinerario_def Let_def estadoInicial_def)
  have 2: "step ?s1 AbrirFormNuevo = ?s1"
    by (simp add: abrirFormNuevo_def estadoInicial_def)
  have e1: "\<not> truthy_id (editandoId ?s1)"
    by (simp add: estadoInicial_def truthy_id_def)
  have 3: "step ?s1 (Guardar t' ts' ej_form) = ?s1\<lparr>itinerarios := [?n2, ?n1]\<rparr>"
    using handleGuardar_crear [OF ej_form_valido e1, of t' ts']
    by (simp add: crearItinerario_def Let_def)
  have "ejecutar [Guardar t ts ej_form, AbrirFormNuevo, Guardar t' ts' ej_form] =
      ?s1\<lparr>itinerarios := [?n2, ?n1]\<rparr>"
    unfolding ejecutar_def by (simp only: foldl.simps 1 2 3)
  moreover have "?n1 ''id'' = Some (JStr (''it_'' @ toString16 t))"
    using id_datos [of "''creadoEn''" "[''id'' \<mapsto> JStr (''it_'' @ toString16 t)]" ej_form "JStr ts"]
    by simp
  moreover have "?n2 ''id'' = Some (JStr (''it_'' @ toString16 t'))"
    using id_datos [of "''creadoEn''" "[''id'' \<mapsto> JStr (''it_'' @ toString16 t')]" ej_form "JStr ts'"]
    by simp
  ultimately show ?thesis by (simp add: ids_def)
qed

text \<open>
  Claim C7 as stated fails when two saves read the same millisecond from the clock:
  two new records are created from the sample form with the clock at 1772000000000
  both times, and the collection then holds the id \<open>it_19c936e3800\<close> twice.
\<close>

theorem ids_counterexample:
  "ids (ejecutar [Guardar 1772000000000 ''2026-02-25T06:13:20.000Z'' ej_form, AbrirFormNuevo,
                  Guardar 1772000000000 ''2026-02-25T06:13:20.000Z'' ej_form]) =
     [Some (JStr ''it_19c936e3800''), Some (JStr ''it_19c936e3800'')] \<and>
   \<not> distinct (ids (ejecutar [Guardar 1772000000000 ''2026-02-25T06:13:20.000Z'' ej_form,
                  AbrirFormNuevo, Guardar 1772000000000 ''2026-02-25T06:13:20.000Z'' ej_form]))"
  by (simp add: crear_dos hex_samples)

text \<open>
  Claim C7, amended. A create assigns the id \<open>it_\<close> followed by the hexadecimal clock
  reading in milliseconds, and different readings give different ids. Along any
  sequence of actions from the empty collection in which the saves read strictly
  increasing clock values, the ids of the collection are pairwise distinct and each is
  the id made from the clock reading of one of the saves.
\<close>

theorem ids_distintos:
  "(toString16 a = toString16 b \<longleftrightarrow> a = b) \<and>
   fst (crearItinerario nowMs nowIso (datosForm d) st) ''id'' =
     Some (JStr (''it_'' @ toString16 nowMs)) \<and>
   (sorted_wrt (<) (relojes evs) \<longrightarrow>
      distinct (ids (ejecutar evs)) \<and>
      (\<forall>it \<in> set (itinerarios (ejecutar evs)).
         \<exists>t \<in> set (relojes evs). it ''id'' = Some (JStr (''it_'' @ toString16 t))))"
proof (intro conjI impI)
  show "toString16 a = toString16 b \<longleftrightarrow> a = b" by (rule toString16_inj)
next
  show "fst (crearItinerario nowMs nowIso (datosForm d) st) ''id'' =
     Some (JStr (''it_'' @ toString16 nowMs))"
    using id_datos [of "''creadoEn''" "[''id'' \<mapsto> JStr (''it_'' @ toString16 nowMs)]" d "JStr nowIso"]
    by (simp add: crearItinerario_def Let_def)
next
  assume "sorted_wrt (<) (relojes evs)"
  from ejecutar_ids [OF this] show "distinct (ids (ejecutar evs))" by blast
next
  assume "sorted_wrt (<) (relojes evs)"
  from ejecutar_ids [OF this]
  show "\<forall>it \<in> set (itinerarios (ejecutar evs)).
         \<exists>t \<in> set (relojes evs). it ''id'' = Some (JStr (''it_'' @ toString16 t))" by blast
qed

text \<open>The amended claim on two creates one millisecond apart: the two ids differ.\<close>

theorem ids_distintos_witness:
  "sorted_wrt (<) (relojes [Guardar 1772000000000 ''2026-02-25T06:13:20.000Z'' ej_form,
      AbrirFormNuevo, Guardar 1772000000001 ''2026-02-25T06:13:20.001Z'' ej_form]) \<and>
   distinct (ids (ejecutar [Guardar 1772000000000 ''2026-02-25T06:13:20.000Z'' ej_form,
      AbrirFormNuevo, Guardar 1772000000001 ''2026-02-25T06:13:20.001Z'' ej_form])) \<and>
   ids (ejecutar [Guardar 1772000000000 ''2026-02-25T06:13:20.000Z'' ej_form,
      AbrirFormNuevo, Guardar 1772000000001 ''2026-02-25T06:13:20.001Z'' ej_form]) =
     [Some (JStr ''it_19c936e3801''), Some (JStr ''it_19c936e3800'')]"
proof -
  let ?evs = "[Guardar 1772000000000 ''2026-02-25T06:13:20.000Z'' ej_form,
      AbrirFormNuevo, Guardar 1772000000001 ''2026-02-25T06:13:20.001Z'' ej_form]"
  have s: "sorted_wrt (<) (relojes ?evs)" by simp
  with ids_distintos [where evs = ?evs] have "distinct (ids (ejecutar ?evs))" by blast
  moreover have "ids (ejecutar ?evs) = [Some (JStr ''it_19c936e3801''), Some (JStr ''it_19c936e3800'')]"
    by (simp add: crear_dos hex_samples)
  ultimately show ?thesis using s by blast
qed


section \<open>Records built from the form\<close>

lemma textual_datos:
  assumes "k \<noteq> ''destino''" "k \<noteq> ''nombre''"
  shows "textual (m ++ datosForm d ++ [k \<mapsto> v])"
proof -
  have "(m ++ datosForm d ++ [k \<mapsto> v]) ''destino'' = Some (JStr (trim (input_destino d)))"
    "(m ++ datosForm d ++ [k \<mapsto> v]) ''nombre'' = Some (JStr (trim (input_nombre d)))"
    using assms by (simp_all add: datosForm_def map_add_def)
  then show ?thesis by (simp add: textual_def is_text_def)
qed

lemma step_textual:
  assumes "list_all textual (itinerarios st)"
  shows "list_all textual (itinerarios (step st ev))"
proof -
  from step_cases [of st ev]
  consider "itinerarios (step st ev) = itinerarios st"
    | t ts d where "itinerarios (step st ev) =
        ([''id'' \<mapsto> JStr (''it_'' @ toString16 t)] ++ datosForm d ++ [''creadoEn'' \<mapsto> JStr ts])
        # itinerarios st"
    | ts d i where "itinerarios (step st ev) =
        (itinerarios st)[i := (itinerarios st ! i) ++ datosForm d ++ [''actualizadoEn'' \<mapsto> JStr ts]]"
    | x where "itinerarios (step st ev) = filter (\<lambda>it. \<not> has_id x it) (itinerarios st)"
    by blast
  then show ?thesis
  proof cases
    case 1
    with assms show ?thesis by simp
  next
    case 2
    from textual_datos [of "''creadoEn''"] assms show ?thesis
      unfolding 2 by simp
  next
    case 3
    from textual_datos [of "''actualizadoEn''"] assms show ?thesis
      unfolding 3 by (intro list_all_update) simp_all
  next
    case 4
    with assms show ?thesis by (simp add: list_all_iff)
  qed
qed

lemma ejecutar_textual: "list_all textual (itinerarios (ejecutar evs))"
proof (induction evs rule: rev_induct)
  case Nil
  then show ?case by (simp add: ejecutar_def estadoInicial_def)
next
  case (snoc ev evs)
  then show ?case by (simp add: ejecutar_snoc step_textual)
qed

section \<open>The projection\<close>

text \<open>
  Claim C2. Computing the projection returns the module state as it was. With a search
  box that is blank after trimming, the projection is the collection filtered by the
  status rule alone. On a collection whose records have strings as \<open>destino\<close> and
  \<open>nombre\<close>, the projection keeps a record exactly when the status filter is
  \<open>todos\<close> or equals the record's \<open>estado\<close>, and the search box is blank after
  trimming or the lower-cased \<open>destino\<close> or \<open>nombre\<close> contains the lower-cased term
  as a contiguous run. The result is a \<open>filter\<close> of the collection, so the survivors
  keep their order. Every collection that the page builds from the empty one has such
  records.
\<close>

theorem getItinerariosFiltrados_projection:
  "snd (getItinerariosFiltrados st) = st \<and>
   (trim (busqueda st) = [] \<longrightarrow>
      fst (getItinerariosFiltrados st) =
        Inr (filter (\<lambda>it. filtroActual st = ''todos'' \<or>
                          it ''estado'' = Some (JStr (filtroActual st)))
               (itinerarios st))) \<and>
   ((\<forall>it \<in> set (itinerarios st). textual it) \<longrightarrow>
      fst (getItinerariosFiltrados st) =
        Inr (filter
               (\<lambda>it. (filtroActual st = ''todos'' \<or>
                      it ''estado'' = Some (JStr (filtroActual st))) \<and>
                     (trim (busqueda st) = [] \<or>
                      (\<exists>d. it ''destino'' = Some (JStr d) \<and>
                         (\<exists>ps ss. toLowerCase d = ps @ toLowerCase (busqueda st) @ ss)) \<or>
                      (\<exists>n. it ''nombre'' = Some (JStr n) \<and>
                         (\<exists>ps ss. toLowerCase n = ps @ toLowerCase (busqueda st) @ ss))))
               (itinerarios st))) \<and>
   list_all textual (itinerarios (ejecutar evs))"
proof (intro conjI impI)
  show "list_all textual (itinerarios (ejecutar evs))"
    by (rule ejecutar_textual)
next
  show "snd (getItinerariosFiltrados st) = st"
    by (simp add: getItinerariosFiltrados_def Let_def)
next
  assume "trim (busqueda st) = []"
  then show "fst (getItinerariosFiltrados st) =
        Inr (filter (\<lambda>it. filtroActual st = ''todos'' \<or>
                          it ''estado'' = Some (JStr (filtroActual st)))
               (itinerarios st))"
    by (simp add: getItinerariosFiltrados_def Let_def)
next
  assume "\<forall>it \<in> set (itinerarios st). textual it"
  then show "fst (getItinerariosFiltrados st) =
        Inr (filter
               (\<lambda>it. (filtroActual st = ''todos'' \<or>
                      it ''estado'' = Some (JStr (filtroActual st))) \<and>
                     (trim (busqueda st) = [] \<or>
                      (\<exists>d. it ''destino'' = Some (JStr d) \<and>
                         (\<exists>ps ss. toLowerCase d = ps @ toLowerCase (busqueda st) @ ss)) \<or>
                      (\<exists>n. it ''nombre'' = Some (JStr n) \<and>
                         (\<exists>ps ss. toLowerCase n = ps @ toLowerCase (busqueda st) @ ss))))
               (itinerarios st))"
    unfolding includes_str_iff [symmetric] by (rule getItinerariosFiltrados_textual)
qed

text \<open>The theorem on the sample collection: a blank search box with the filter
  \<open>completado\<close> leaves the Paris trip, and the search \<open>toK\<close> leaves the Tokyo trip.\<close>

theorem getItinerariosFiltrados_projection_witness:
  "trim (busqueda (ej_state\<lparr>filtroActual := ''completado'', busqueda := ''  ''\<rparr>)) = [] \<and>
   fst (getItinerariosFiltrados (ej_state\<lparr>filtroActual := ''completado'', busqueda := ''  ''\<rparr>))
     = Inr [ej_paris] \<and>
   list_all textual (itinerarios (ej_state\<lparr>busqueda := ''toK''\<rparr>)) \<and>
   fst (getItinerariosFiltrados (ej_state\<lparr>busqueda := ''toK''\<rparr>)) = Inr [ej_tokio]"
proof -
  let ?s1 = "ej_state\<lparr>filtroActual := ''completado'', busqueda := ''  ''\<rparr>"
  let ?s2 = "ej_state\<lparr>busqueda := ''toK''\<rparr>"
  have h1: "trim (busqueda ?s1) = []"
    by (simp add: trim_def isWhiteSpace_def)
  have h2: "\<forall>it \<in> set (itinerarios ?s2). textual it"
    by (simp add: ej_state_def ej_tokio_def ej_paris_def textual_def is_text_def)
  have t2: "trim (busqueda ?s2) \<noteq> []"
    by (simp add: trim_def isWhiteSpace_def)
  from h1 getItinerariosFiltrados_projection [of ?s1, folded includes_str_iff]
  have r1: "fst (getItinerariosFiltrados ?s1) = Inr [ej_paris]"
    by (simp add: ej_state_def ej_tokio_def ej_paris_def)
  from h2 t2 getItinerariosFiltrados_projection [of ?s2, folded includes_str_iff]
  have r2: "fst (getItinerariosFiltrados ?s2) = Inr [ej_tokio]"
    by (simp add: ej_state_def ej_tokio_def ej_paris_def lower_samples)
  from h1 r1 h2 r2 show ?thesis by (simp add: list_all_iff)
qed

text \<open>
  Claim C10. When the search box is not blank after trimming, the search step compares
  against the lower-cased content of the box as typed, white space included: on a
  collection of records with strings as \<open>destino\<close> and \<open>nombre\<close>, a record that passes
  the status filter survives exactly when its lower-cased \<open>destino\<close> or \<open>nombre\<close>
  contains that untrimmed string. So on the sample collection the search \<open>tokyo\<close>
  preceded by a space finds nothing, while its trimmed form finds the Tokyo trip.
\<close>

theorem busqueda_sin_recortar:
  "(trim (busqueda st) \<noteq> [] \<and> (\<forall>it \<in> set (itinerarios st). textual it) \<longrightarrow>
      fst (getItinerariosFiltrados st) =
        Inr (filter
               (\<lambda>it. (filtroActual st = ''todos'' \<or>
                      it ''estado'' = Some (JStr (filtroActual st))) \<and>
                     ((\<exists>d. it ''destino'' = Some (JStr d) \<and>
                         (\<exists>ps ss. toLowerCase d = ps @ toLowerCase (busqueda st) @ ss)) \<or>
                      (\<exists>n. it ''nombre'' = Some (JStr n) \<and>
                         (\<exists>ps ss. toLowerCase n = ps @ toLowerCase (busqueda st) @ ss))))
               (itinerarios st))) \<and>
   trim '' tokyo'' = ''tokyo'' \<and>
   fst (getItinerariosFiltrados (ej_state\<lparr>busqueda := '' tokyo''\<rparr>)) = Inr [] \<and>
   fst (getItinerariosFiltrados (ej_state\<lparr>busqueda := ''tokyo''\<rparr>)) = Inr [ej_tokio]"
proof (intro conjI impI)
  assume h: "trim (busqueda st) \<noteq> [] \<and> (\<forall>it \<in> set (itinerarios st). textual it)"
  then have "fst (getItinerariosFiltrados st) =
     Inr (filter
            (\<lambda>it. (filtroActual st = ''todos'' \<or>
                   it ''estado'' = Some (JStr (filtroActual st))) \<and>
                  (trim (busqueda st) = [] \<or>
                   (\<exists>d. it ''destino'' = Some (JStr d) \<and>
                      includes_str (toLowerCase d) (toLowerCase (busqueda st))) \<or>
                   (\<exists>n. it ''nombre'' = Some (JStr n) \<and>
                      includes_str (toLowerCase n) (toLowerCase (busqueda st)))))
            (itinerarios st))"
    by (simp add: getItinerariosFiltrados_textual)
  with h show "fst (getItinerariosFiltrados st) =
        Inr (filter
               (\<lambda>it. (filtroActual st = ''todos'' \<or>
                      it ''estado'' = Some (JStr (filtroActual st))) \<and>
                     ((\<exists>d. it ''destino'' = Some (JStr d) \<and>
                         (\<exists>ps ss. toLowerCase d = ps @ toLowerCase (busqueda st) @ ss)) \<or>
                      (\<exists>n. it ''nombre'' = Some (JStr n) \<and>
                         (\<exists>ps ss. toLowerCase n = ps @ toLowerCase (busqueda st) @ ss))))
               (itinerarios st))"
    by (simp add: includes_str_iff)
next
  show "trim '' tokyo'' = ''tokyo''"
    by (simp add: trim_def isWhiteSpace_def)
next
  have wf: "\<forall>it \<in> set (itinerarios (ej_state\<lparr>busqueda := '' tokyo''\<rparr>)). textual it"
    by (simp add: ej_state_def ej_tokio_def ej_paris_def textual_def is_text_def)
  have "trim '' tokyo'' \<noteq> []"
    by (simp add: trim_def isWhiteSpace_def)
  with getItinerariosFiltrados_textual [OF wf]
  show "fst (getItinerariosFiltrados (ej_state\<lparr>busqueda := '' tokyo''\<rparr>)) = Inr []"
    by (simp add: ej_state_def ej_tokio_def ej_paris_def lower_samples)
next
  have wf: "\<forall>it \<in> set (itinerarios (ej_state\<lparr>busqueda := ''tokyo''\<rparr>)). textual it"
    by (simp add: ej_state_def ej_tokio_def ej_paris_def textual_def is_text_def)
  have "trim ''tokyo'' \<noteq> []"
    by (simp add: trim_def isWhiteSpace_def)
  with getItinerariosFiltrados_textual [OF wf]
  show "fst (getItinerariosFiltrados (ej_state\<lparr>busqueda := ''tokyo''\<rparr>)) = Inr [ej_tokio]"
    by (simp add: ej_state_def ej_tokio_def ej_paris_def lower_samples)
qed

text \<open>The theorem at the search \<open>tokyo\<close> preceded by a space: the hypotheses hold and
  the filter of the theorem leaves no record.\<close>

theorem busqueda_sin_recortar_witness:
  "trim (busqueda (ej_state\<lparr>busqueda := '' tokyo''\<rparr>)) \<noteq> [] \<and>
   list_all textual (itinerarios (ej_state\<lparr>busqueda := '' tokyo''\<rparr>)) \<and>
   fst (getItinerariosFiltrados (ej_state\<lparr>busqueda := '' tokyo''\<rparr>)) = Inr []"
proof -
  let ?s = "ej_state\<lparr>busqueda := '' tokyo''\<rparr>"
  have h1: "trim (busqueda ?s) \<noteq> []"
    by (simp add: trim_def isWhiteSpace_def)
  have h2: "\<forall>it \<in> set (itinerarios ?s). textual it"
    by (simp add: ej_state_def ej_tokio_def ej_paris_def textual_def is_text_def)
  from h1 h2 busqueda_sin_recortar [of ?s, folded includes_str_iff]
  have "fst (getItinerariosFiltrados ?s) = Inr []"
    by (simp add: ej_state_def ej_tokio_def ej_paris_def lower_samples)
  with h1 h2 show ?thesis by (simp add: list_all_iff)
qed


end
